theory Spec2Isabelle
  imports Main "HOL-Library.Sublist"
begin

section \<open>Strings as the Go code uses them\<close>

text \<open>
  Go strings are byte sequences; they are modelled as \<open>string\<close> (a \<open>char list\<close>, one
  \<open>char\<close> per byte). The functions of package \<open>strings\<close> are modelled on ASCII: bytes
  from 0x80 on are neither letters nor white space here, whereas Go decodes them as
  UTF-8. DNS names, record types and country codes are ASCII.
\<close>

definition is_upper :: "char \<Rightarrow> bool" where
  "is_upper c = (65 \<le> (of_char c :: nat) \<and> (of_char c :: nat) \<le> 90)"

definition lower_char :: "char \<Rightarrow> char" where
  "lower_char c = (if is_upper c then char_of ((of_char c :: nat) + 32) else c)"

definition is_lower :: "char \<Rightarrow> bool" where
  "is_lower c = (97 \<le> (of_char c :: nat) \<and> (of_char c :: nat) \<le> 122)"

definition upper_char :: "char \<Rightarrow> char" where
  "upper_char c = (if is_lower c then char_of ((of_char c :: nat) - 32) else c)"

definition ToLower :: "string \<Rightarrow> string" where
  "ToLower s = map lower_char s"

definition ToUpper :: "string \<Rightarrow> string" where
  "ToUpper s = map upper_char s"

text \<open>\<open>strings.EqualFold\<close> on ASCII: equality up to the case of letters.\<close>

definition EqualFold :: "string \<Rightarrow> string \<Rightarrow> bool" where
  "EqualFold s t = (ToLower s = ToLower t)"

text \<open>The ASCII white space of \<open>unicode.IsSpace\<close>: tab, LF, VT, FF, CR and the blank.\<close>

definition is_space :: "char \<Rightarrow> bool" where
  "is_space c = (c = CHR 0x09 \<or> c = CHR 0x0A \<or> c = CHR 0x0B \<or> c = CHR 0x0C
                 \<or> c = CHR 0x0D \<or> c = CHR '' '')"

definition TrimSpace :: "string \<Rightarrow> string" where
  "TrimSpace s = rev (dropWhile is_space (rev (dropWhile is_space s)))"

definition HasSuffix :: "string \<Rightarrow> string \<Rightarrow> bool" where
  "HasSuffix s suf = suffix suf s"

definition HasPrefix :: "string \<Rightarrow> string \<Rightarrow> bool" where
  "HasPrefix s pre = prefix pre s"

definition TrimSuffix :: "string \<Rightarrow> string \<Rightarrow> string" where
  "TrimSuffix s suf = (if HasSuffix s suf then take (length s - length suf) s else s)"

section \<open>Name normalization\<close>

datatype error =
    NameNotInZone string string
  | UniqueViolation
  | NoZone
  | RecordNotFound
  | ReadError
  | ParseError
  | ValidationError string

text \<open>\<open>NormalizeFQDN\<close> of \<open>zoneio/json.go\<close>.\<close>

definition NormalizeFQDN :: "string \<Rightarrow> string" where
  "NormalizeFQDN name =
     (let n = ToLower (TrimSpace name)
      in if n \<noteq> [] \<and> \<not> HasSuffix n ''.'' then n @ ''.'' else n)"

text \<open>
  \<open>NormalizeRRSetName\<close> of \<open>zoneio/json.go\<close>. The Go function returns a string and an
  error; the error case (where the string is empty and ignored by every caller) is
  \<open>Inl\<close>.
\<close>

definition NormalizeRRSetName :: "string \<Rightarrow> string \<Rightarrow> error + string" where
  "NormalizeRRSetName name zoneName =
     (let n = ToLower (TrimSpace name);
          zone = TrimSuffix (ToLower (TrimSpace zoneName)) ''.'';
          zoneFQDN = zone @ ''.''
      in if n = [] \<or> n = ''@'' then Inr zoneFQDN
         else
           let n = (if HasSuffix n ''.@'' then TrimSuffix n ''.@'' else n);
               result =
                 (if HasSuffix n ''.'' then n
                  else if n = zone then zoneFQDN
                  else if HasSuffix n (''.'' @ zone) then n @ ''.''
                  else n @ ''.'' @ zoneFQDN)
           in if result \<noteq> zoneFQDN \<and> \<not> HasSuffix result (''.'' @ zoneFQDN)
              then Inl (NameNotInZone name zoneName)
              else Inr result)"

text \<open>\<open>fqdn\<close> of the REST handlers: the name is always taken relative to the zone.\<close>

definition fqdn :: "string \<Rightarrow> string \<Rightarrow> string" where
  "fqdn name zone =
     (let n = ToLower name;
          n = (if HasSuffix n ''.@'' then TrimSuffix n ''.@'' else n);
          n = TrimSuffix n ''.'';
          z = TrimSuffix (ToLower zone) ''.''
      in if n = [] \<or> n = ''@'' then z @ ''.'' else n @ ''.'' @ z @ ''.'')"


text \<open>
  Auxiliary notions for the proofs: the FQDN of a zone as \<open>NormalizeRRSetName\<close> computes
  it, membership of a name in a zone as its final check tests it, and the shape of
  every name it returns (a part that does not start with white space, a dot, and a rest
  that is empty or ends with a dot; all lowercase).
\<close>

definition zoneFQDN_of :: "string \<Rightarrow> string" where
  "zoneFQDN_of zoneName = TrimSuffix (ToLower (TrimSpace zoneName)) ''.'' @ ''.''"

definition in_zone :: "string \<Rightarrow> string \<Rightarrow> bool" where
  "in_zone y zoneName =
     (y = zoneFQDN_of zoneName \<or> HasSuffix y (''.'' @ zoneFQDN_of zoneName))"

definition dotted :: "string \<Rightarrow> bool" where
  "dotted y =
     (\<exists>p q. y = p @ ''.'' @ q \<and> (p = [] \<or> \<not> is_space (hd p))
        \<and> (q = [] \<or> last q = CHR ''.'') \<and> ToLower p = p \<and> ToLower q = q)"

text \<open>
  The name that \<open>NormalizeRRSetName\<close> has computed when it reaches its final check
  (its variable \<open>result\<close>, or the zone apex when it returns early).
\<close>

definition unchecked_name :: "string \<Rightarrow> string \<Rightarrow> string" where
  "unchecked_name name zoneName =
     (let n = ToLower (TrimSpace name);
          zone = TrimSuffix (ToLower (TrimSpace zoneName)) ''.'';
          zoneFQDN = zone @ ''.''
      in if n = [] \<or> n = ''@'' then zoneFQDN
         else
           let n = (if HasSuffix n ''.@'' then TrimSuffix n ''.@'' else n)
           in if HasSuffix n ''.'' then n
              else if n = zone then zoneFQDN
              else if HasSuffix n (''.'' @ zone) then n @ ''.''
              else n @ ''.'' @ zoneFQDN)"

section \<open>More of packages \<open>strings\<close> and \<open>strconv\<close>\<close>

text \<open>\<open>strings.Fields\<close>: the maximal runs of characters that are not white space.\<close>

fun fields_from :: "string \<Rightarrow> string \<Rightarrow> string list" where
  "fields_from w [] = (if w = [] then [] else [w])"
| "fields_from w (c # cs) =
     (if is_space c then (if w = [] then fields_from [] cs else w # fields_from [] cs)
      else fields_from (w @ [c]) cs)"

definition Fields :: "string \<Rightarrow> string list" where
  "Fields s = fields_from [] s"

text \<open>\<open>strings.Join\<close>.\<close>

fun Join :: "string list \<Rightarrow> string \<Rightarrow> string" where
  "Join [] sep = []"
| "Join [p] sep = p"
| "Join (p # q # ps) sep = p @ sep @ Join (q # ps) sep"

text \<open>
  \<open>strings.ReplaceAll\<close> for a non-empty \<open>old\<close> (the code only replaces the
  placeholders \<open>{zone}\<close> and \<open>{domain}\<close>): the non-overlapping occurrences from the
  left. For an empty \<open>old\<close> the model returns the string unchanged, which Go does not.
\<close>

function ReplaceAll :: "string \<Rightarrow> string \<Rightarrow> string \<Rightarrow> string" where
  "ReplaceAll [] old new = []"
| "ReplaceAll (c # cs) old new =
     (if old \<noteq> [] \<and> prefix old (c # cs)
      then new @ ReplaceAll (drop (length old) (c # cs)) old new
      else c # ReplaceAll cs old new)"
  by pat_completeness auto
termination
  by (relation "measure (\<lambda>(s, old, new). length s)") (auto simp: neq_Nil_conv)

text \<open>Decimal digits.\<close>

definition is_digit :: "char \<Rightarrow> bool" where
  "is_digit c = (48 \<le> (of_char c :: nat) \<and> (of_char c :: nat) \<le> 57)"

definition digit_val :: "char \<Rightarrow> int" where
  "digit_val c = int (of_char c) - 48"

definition digit_char :: "int \<Rightarrow> char" where
  "digit_char d = char_of (48 + nat d)"

definition digits_val :: "string \<Rightarrow> int" where
  "digits_val ds = foldl (\<lambda>acc c. 10 * acc + digit_val c) 0 ds"

text \<open>
  \<open>strconv.ParseInt(s, 10, 64)\<close>: an optional sign, then one or more decimal digits; a
  value outside the range of \<open>int64\<close> is an error, as are the empty string and any other
  character. \<open>None\<close> is the error.
\<close>

definition ParseInt :: "string \<Rightarrow> int option" where
  "ParseInt s =
     (case s of
        [] \<Rightarrow> None
      | c # cs \<Rightarrow>
          (let neg = (c = CHR ''-'');
               ds = (if c = CHR ''+'' \<or> c = CHR ''-'' then cs else s)
           in if ds = [] \<or> \<not> list_all is_digit ds then None
              else
                let un = digits_val ds
                in if \<not> neg \<and> un \<ge> 2 ^ 63 then None
                   else if neg \<and> un > 2 ^ 63 then None
                   else Some (if neg then - un else un)))"

text \<open>\<open>strconv.FormatInt(n, 10)\<close>.\<close>

function format_digits :: "int \<Rightarrow> string" where
  "format_digits n =
     (if n < 10 then [digit_char n]
      else format_digits (n div 10) @ [digit_char (n mod 10)])"
  by pat_completeness auto
termination
  by (relation "measure nat") auto

declare format_digits.simps [simp del]

definition FormatInt :: "int \<Rightarrow> string" where
  "FormatInt n = (if n < 0 then CHR ''-'' # format_digits (- n) else format_digits n)"

text \<open>\<open>n++\<close> on an \<open>int64\<close>: it wraps around at the largest value.\<close>

definition inc64 :: "int \<Rightarrow> int" where
  "inc64 n = (if n = 2 ^ 63 - 1 then - (2 ^ 63) else n + 1)"

text \<open>A string that is one field for \<open>strings.Fields\<close>: not empty and free of white space.\<close>

definition one_field :: "string \<Rightarrow> bool" where
  "one_field s = (s \<noteq> [] \<and> list_all (\<lambda>c. \<not> is_space c) s)"

section \<open>Records and the Geo selector\<close>

text \<open>
  \<open>RData\<close> of \<open>internal/db/models.go\<close> (the timestamps are left out). The optional Geo
  attributes are pointers in Go; \<open>nil\<close> is \<open>None\<close>.
\<close>

record RData =
  rd_ID :: nat
  rd_RRSetID :: nat
  rd_Data :: string
  rd_Country :: "string option"
  rd_Continent :: "string option"
  rd_ASN :: "int option"
  rd_Subnet :: "string option"

text \<open>\<open>geoip.Info\<close>, the result of a Geo lookup, as \<open>selectGeoRecords\<close> reads it.\<close>

record Info =
  g_Country :: string
  g_Continent :: string
  g_ASN :: int

text \<open>The five slices that the loop of \<open>selectGeoRecords\<close> appends to.\<close>

record buckets =
  subnetMatch :: "RData list"
  asnMatch :: "RData list"
  countryMatch :: "RData list"
  continentMatch :: "RData list"
  generic :: "RData list"

definition no_buckets :: buckets where
  "no_buckets = \<lparr>subnetMatch = [], asnMatch = [], countryMatch = [], continentMatch = [],
                  generic = []\<rparr>"

definition no_geo_attrs :: "RData \<Rightarrow> bool" where
  "no_geo_attrs r =
     (rd_Country r = None \<and> rd_Continent r = None \<and> rd_ASN r = None \<and> rd_Subnet r = None)"

text \<open>
  One iteration of the loop over the candidates, for a valid client address. The
  parameter \<open>contains cidr ip\<close> stands for the two calls into \<open>net/netip\<close>:
  \<open>netip.ParsePrefix(cidr)\<close> succeeds and the prefix contains \<open>ip\<close>.
\<close>

definition geo_step ::
  "(string \<Rightarrow> 'ip \<Rightarrow> bool) \<Rightarrow> 'ip \<Rightarrow> Info \<Rightarrow> buckets \<Rightarrow> RData \<Rightarrow> buckets" where
  "geo_step contains ip g b r =
     (if (case rd_Subnet r of None \<Rightarrow> False | Some cidr \<Rightarrow> contains cidr ip)
      then b\<lparr>subnetMatch := subnetMatch b @ [r]\<rparr>
      else if (case rd_ASN r of None \<Rightarrow> False | Some a \<Rightarrow> g_ASN g \<noteq> 0 \<and> a = g_ASN g)
      then b\<lparr>asnMatch := asnMatch b @ [r]\<rparr>
      else if (case rd_Country r of None \<Rightarrow> False
               | Some c \<Rightarrow> g_Country g \<noteq> [] \<and> EqualFold c (g_Country g))
      then b\<lparr>countryMatch := countryMatch b @ [r]\<rparr>
      else if (case rd_Continent r of None \<Rightarrow> False
               | Some c \<Rightarrow> g_Continent g \<noteq> [] \<and> EqualFold c (g_Continent g))
      then b\<lparr>continentMatch := continentMatch b @ [r]\<rparr>
      else if no_geo_attrs r
      then b\<lparr>generic := generic b @ [r]\<rparr>
      else b)"

text \<open>
  \<open>selectGeoRecords\<close> of the DNS server. The client address is \<open>None\<close> when
  \<open>ip.IsValid()\<close> is false. Both loops are left folds that append to their slices.
\<close>

definition selectGeoRecords ::
  "(string \<Rightarrow> 'ip \<Rightarrow> bool) \<Rightarrow> RData list \<Rightarrow> 'ip option \<Rightarrow> Info \<Rightarrow> RData list \<times> string" where
  "selectGeoRecords contains recs ip g =
     (if length recs = 0 then (recs, ''none'')
      else case ip of
        None \<Rightarrow>
          (let out = foldl (\<lambda>out r. if no_geo_attrs r then out @ [r] else out) [] recs
           in if length out > 0 then (out, ''generic'') else (recs, ''all''))
      | Some a \<Rightarrow>
          (let b = foldl (geo_step contains a g) no_buckets recs
           in if length (subnetMatch b) > 0 then (subnetMatch b, ''subnet'')
              else if length (asnMatch b) > 0 then (asnMatch b, ''asn'')
              else if length (countryMatch b) > 0 then (countryMatch b, ''country'')
              else if length (continentMatch b) > 0 then (continentMatch b, ''continent'')
              else if length (generic b) > 0 then (generic b, ''generic'')
              else (recs, ''all'')))"

subsection \<open>The selector as the specification words it\<close>

datatype rule = BySubnet | ByASN | ByCountry | ByContinent | ByGeneric

fun matches :: "(string \<Rightarrow> 'ip \<Rightarrow> bool) \<Rightarrow> 'ip \<Rightarrow> Info \<Rightarrow> rule \<Rightarrow> RData \<Rightarrow> bool" where
  "matches contains ip g BySubnet r =
     (case rd_Subnet r of None \<Rightarrow> False | Some cidr \<Rightarrow> contains cidr ip)"
| "matches contains ip g ByASN r =
     (case rd_ASN r of None \<Rightarrow> False | Some a \<Rightarrow> a = g_ASN g \<and> a \<noteq> 0)"
| "matches contains ip g ByCountry r =
     (case rd_Country r of None \<Rightarrow> False
      | Some c \<Rightarrow> c \<noteq> [] \<and> g_Country g \<noteq> [] \<and> EqualFold c (g_Country g))"
| "matches contains ip g ByContinent r =
     (case rd_Continent r of None \<Rightarrow> False
      | Some c \<Rightarrow> c \<noteq> [] \<and> g_Continent g \<noteq> [] \<and> EqualFold c (g_Continent g))"
| "matches contains ip g ByGeneric r = no_geo_attrs r"

definition priority :: "rule list" where
  "priority = [BySubnet, ByASN, ByCountry, ByContinent, ByGeneric]"

definition rule_name :: "rule \<Rightarrow> string" where
  "rule_name ru = (case ru of BySubnet \<Rightarrow> ''subnet'' | ByASN \<Rightarrow> ''asn''
     | ByCountry \<Rightarrow> ''country'' | ByContinent \<Rightarrow> ''continent'' | ByGeneric \<Rightarrow> ''generic'')"

text \<open>The first rule, in priority order, that a candidate matches.\<close>

definition first_rule :: "(string \<Rightarrow> 'ip \<Rightarrow> bool) \<Rightarrow> 'ip \<Rightarrow> Info \<Rightarrow> RData \<Rightarrow> rule option" where
  "first_rule contains ip g r = find (\<lambda>ru. matches contains ip g ru r) priority"

text \<open>The bucket of a rule: the candidates assigned to it, in their original order.\<close>

definition bucket ::
  "(string \<Rightarrow> 'ip \<Rightarrow> bool) \<Rightarrow> 'ip \<Rightarrow> Info \<Rightarrow> rule \<Rightarrow> RData list \<Rightarrow> RData list" where
  "bucket contains ip g ru recs = filter (\<lambda>r. first_rule contains ip g r = Some ru) recs"

definition geo_spec ::
  "(string \<Rightarrow> 'ip \<Rightarrow> bool) \<Rightarrow> RData list \<Rightarrow> 'ip option \<Rightarrow> Info \<Rightarrow> RData list \<times> string" where
  "geo_spec contains recs ip g =
     (if recs = [] then ([], ''none'')
      else case ip of
        None \<Rightarrow>
          (if filter no_geo_attrs recs = [] then (recs, ''all'')
           else (filter no_geo_attrs recs, ''generic''))
      | Some a \<Rightarrow>
          (case find (\<lambda>ru. bucket contains a g ru recs \<noteq> []) priority of
             None \<Rightarrow> (recs, ''all'')
           | Some ru \<Rightarrow> (bucket contains a g ru recs, rule_name ru)))"

subsection \<open>Scenario 2 of the specification (subnet beats country)\<close>

text \<open>
  Addresses are IPv4 addresses as four octets here; the only prefix of the scenario is
  \<open>8.8.8.0/24\<close>.
\<close>

definition scenario_contains :: "string \<Rightarrow> nat \<times> nat \<times> nat \<times> nat \<Rightarrow> bool" where
  "scenario_contains cidr ip =
     (case ip of (a, b, c, d) \<Rightarrow> cidr = ''8.8.8.0/24'' \<and> a = 8 \<and> b = 8 \<and> c = 8)"

definition plain_record :: "string \<Rightarrow> RData" where
  "plain_record d = \<lparr>rd_ID = 0, rd_RRSetID = 0, rd_Data = d, rd_Country = None,
     rd_Continent = None, rd_ASN = None, rd_Subnet = None\<rparr>"

definition scenario_records :: "RData list" where
  "scenario_records =
     [(plain_record ''198.51.100.11'')\<lparr>rd_Country := Some ''US''\<rparr>,
      plain_record ''198.51.100.12'',
      (plain_record ''198.51.100.13'')\<lparr>rd_Subnet := Some ''8.8.8.0/24''\<rparr>]"

definition scenario_info :: Info where
  "scenario_info = \<lparr>g_Country = ''us'', g_Continent = ''NA'', g_ASN = 15169\<rparr>"

section \<open>The store\<close>

text \<open>
  The structs of \<open>internal/db/models.go\<close> (without the timestamps). GORM uses one struct
  both for a row of a table and for the row together with its associated rows; in the
  tables of the model the association fields (\<open>rs_Records\<close>, \<open>z_RRSets\<close>,
  \<open>t_Records\<close>) are empty, and a \<open>Preload\<close> fills them.
\<close>

record RRSet =
  rs_ID :: nat
  rs_ZoneID :: nat
  rs_Name :: string
  rs_Type :: string
  rs_TTL :: nat
  rs_Records :: "RData list"

record Zone =
  z_ID :: nat
  z_Name :: string
  z_RRSets :: "RRSet list"

record TemplateRecord =
  tr_ID :: nat
  tr_TemplateID :: nat
  tr_Name :: string
  tr_Type :: string
  tr_TTL :: nat
  tr_Data :: string
  tr_Country :: "string option"
  tr_Continent :: "string option"
  tr_ASN :: "int option"
  tr_Subnet :: "string option"

record Template =
  t_ID :: nat
  t_Name :: string
  t_Description :: string
  t_Records :: "TemplateRecord list"

text \<open>
  The database: one list of rows per table, in the order of insertion, which is the
  order of the primary keys, and the next key of the auto-increment column of each
  table.
\<close>

record Store =
  zones :: "Zone list"
  rr_sets :: "RRSet list"
  r_data :: "RData list"
  templates :: "Template list"
  template_records :: "TemplateRecord list"
  next_rrset_id :: nat
  next_rdata_id :: nat
  next_zone_id :: nat
  next_template_id :: nat
  next_template_record_id :: nat

subsection \<open>The GORM calls of the code\<close>

text \<open>\<open>Where("zone_id = ? AND name = ? AND type = ?", ...).First(&rrset)\<close>.\<close>

definition first_rrset :: "Store \<Rightarrow> nat \<Rightarrow> string \<Rightarrow> string \<Rightarrow> RRSet option" where
  "first_rrset st zid name typ =
     find (\<lambda>row. rs_ZoneID row = zid \<and> rs_Name row = name \<and> rs_Type row = typ) (rr_sets st)"

text \<open>The rows of \<open>r_data\<close> that \<open>Preload("Records")\<close> attaches to an RRSet.\<close>

definition records_of :: "Store \<Rightarrow> nat \<Rightarrow> RData list" where
  "records_of st rid = filter (\<lambda>r. rd_RRSetID r = rid) (r_data st)"

definition preload_records :: "Store \<Rightarrow> RRSet \<Rightarrow> RRSet" where
  "preload_records st row = row\<lparr>rs_Records := records_of st (rs_ID row)\<rparr>"

text \<open>\<open>Where("rr_set_id = ?", id).Delete(&RData{})\<close>.\<close>

definition delete_records_of :: "nat \<Rightarrow> Store \<Rightarrow> Store" where
  "delete_records_of rid st = st\<lparr>r_data := filter (\<lambda>r. rd_RRSetID r \<noteq> rid) (r_data st)\<rparr>"

text \<open>\<open>Create(&record)\<close> of one \<open>RData\<close> whose ID is zero: the row gets the next key.\<close>

definition create_rdata :: "RData \<Rightarrow> Store \<Rightarrow> Store" where
  "create_rdata r st =
     st\<lparr>r_data := r_data st @ [r\<lparr>rd_ID := next_rdata_id st\<rparr>],
        next_rdata_id := Suc (next_rdata_id st)\<rparr>"

text \<open>
  The records of an RRSet that is created or saved: GORM inserts them, in order, with
  the key of the RRSet as \<open>rr_set_id\<close>. Their IDs are zero at every call of the code.
\<close>

fun insert_records :: "nat \<Rightarrow> RData list \<Rightarrow> Store \<Rightarrow> Store" where
  "insert_records rid [] st = st"
| "insert_records rid (r # rs) st =
     insert_records rid rs (create_rdata (r\<lparr>rd_RRSetID := rid\<rparr>) st)"

text \<open>
  \<open>Create(&rrset)\<close> for an RRSet whose ID is zero. The unique index on
  \<open>(zone_id, name, type)\<close> rejects a second row with the same triple.
\<close>

definition create_rrset :: "RRSet \<Rightarrow> Store \<Rightarrow> error + (RRSet \<times> Store)" where
  "create_rrset rs st =
     (if first_rrset st (rs_ZoneID rs) (rs_Name rs) (rs_Type rs) \<noteq> None
      then Inl UniqueViolation
      else
        let new_id = next_rrset_id st;
            st1 = st\<lparr>rr_sets := rr_sets st @ [rs\<lparr>rs_ID := new_id, rs_Records := []\<rparr>],
                     next_rrset_id := Suc new_id\<rparr>
        in Inr (rs\<lparr>rs_ID := new_id\<rparr>, insert_records new_id (rs_Records rs) st1))"

text \<open>
  \<open>Save(&existing)\<close> for an RRSet that was read from the table: the row with its
  primary key is updated and the records of the struct are inserted. At the calls that
  are modelled the triple \<open>(zone_id, name, type)\<close> of the row does not change, so the
  unique index cannot reject the update.
\<close>

definition save_rrset :: "RRSet \<Rightarrow> Store \<Rightarrow> Store" where
  "save_rrset e st =
     insert_records (rs_ID e) (rs_Records e)
       (st\<lparr>rr_sets := map (\<lambda>row. if rs_ID row = rs_ID e then e\<lparr>rs_Records := []\<rparr> else row)
                          (rr_sets st)\<rparr>)"

text \<open>\<open>Model(&RData{}).Where("id = ?", id).Update("data", newData)\<close>.\<close>

definition update_rdata_data :: "nat \<Rightarrow> string \<Rightarrow> Store \<Rightarrow> Store" where
  "update_rdata_data rid newData st =
     st\<lparr>r_data := map (\<lambda>r. if rd_ID r = rid then r\<lparr>rd_Data := newData\<rparr> else r) (r_data st)\<rparr>"

text \<open>
  \<open>db.Transaction\<close>: when the function returns an error nothing is committed and the
  error is returned; otherwise its writes are.
\<close>

definition Transaction :: "(Store \<Rightarrow> error + Store) \<Rightarrow> Store \<Rightarrow> error option \<times> Store" where
  "Transaction f db = (case f db of Inl e \<Rightarrow> (Some e, db) | Inr tx \<Rightarrow> (None, tx))"

subsection \<open>\<open>ImportJSON\<close>\<close>

text \<open>The first block of the transaction, run in mode \<open>replace\<close>.\<close>

definition delete_zone_rrsets :: "nat \<Rightarrow> Store \<Rightarrow> Store" where
  "delete_zone_rrsets zid tx =
     (let rrsetIDs = map rs_ID (filter (\<lambda>row. rs_ZoneID row = zid) (rr_sets tx));
          tx1 = (if length rrsetIDs > 0
                 then tx\<lparr>r_data := filter (\<lambda>r. rd_RRSetID r \<notin> set rrsetIDs) (r_data tx)\<rparr>
                 else tx)
      in tx1\<lparr>rr_sets := filter (\<lambda>row. rs_ZoneID row \<noteq> zid) (rr_sets tx1)\<rparr>)"

text \<open>The RRSet of the payload as the loop rewrites it before it looks for a row.\<close>

definition incoming_rrset :: "Zone \<Rightarrow> nat \<Rightarrow> RRSet \<Rightarrow> error + RRSet" where
  "incoming_rrset dst defaultTTL rs0 =
     (let rs = rs0\<lparr>rs_ID := 0, rs_ZoneID := z_ID dst\<rparr>
      in case NormalizeRRSetName (rs_Name rs) (z_Name dst) of
           Inl err \<Rightarrow> Inl err
         | Inr normalizedName \<Rightarrow>
             let rs = rs\<lparr>rs_Name := normalizedName, rs_Type := ToUpper (rs_Type rs)\<rparr>;
                 rs = (if rs_TTL rs = 0 \<and> defaultTTL > 0 then rs\<lparr>rs_TTL := defaultTTL\<rparr> else rs)
             in Inr (rs\<lparr>rs_Records :=
                        map (\<lambda>r. r\<lparr>rd_ID := 0, rd_RRSetID := 0\<rparr>) (rs_Records rs)\<rparr>))"

text \<open>One iteration of the loop over \<open>src.RRSets\<close>.\<close>

definition import_rrset :: "Zone \<Rightarrow> nat \<Rightarrow> RRSet \<Rightarrow> Store \<Rightarrow> error + Store" where
  "import_rrset dst defaultTTL rs0 tx =
     (case incoming_rrset dst defaultTTL rs0 of
        Inl err \<Rightarrow> Inl err
      | Inr rs \<Rightarrow>
          (case first_rrset tx (z_ID dst) (rs_Name rs) (rs_Type rs) of
             Some existing \<Rightarrow>
               Inr (save_rrset (existing\<lparr>rs_TTL := rs_TTL rs, rs_Records := rs_Records rs\<rparr>)
                      (delete_records_of (rs_ID existing) tx))
           | None \<Rightarrow>
               (case create_rrset rs tx of
                  Inl err \<Rightarrow> Inl err
                | Inr (created, tx') \<Rightarrow> Inr tx')))"

fun import_loop :: "Zone \<Rightarrow> nat \<Rightarrow> RRSet list \<Rightarrow> Store \<Rightarrow> error + Store" where
  "import_loop dst defaultTTL [] tx = Inr tx"
| "import_loop dst defaultTTL (rs # rest) tx =
     (case import_rrset dst defaultTTL rs tx of
        Inl err \<Rightarrow> Inl err
      | Inr tx' \<Rightarrow> import_loop dst defaultTTL rest tx')"

text \<open>
  \<open>ImportJSON\<close> of \<open>zoneio/json.go\<close>: the error that it returns, if any, and the
  database afterwards.
\<close>

definition ImportJSON :: "Store \<Rightarrow> Zone \<Rightarrow> Zone \<Rightarrow> string \<Rightarrow> nat \<Rightarrow> error option \<times> Store" where
  "ImportJSON db dst src mode defaultTTL =
     Transaction
       (\<lambda>tx. import_loop dst defaultTTL (z_RRSets src)
                (if mode = ''replace'' then delete_zone_rrsets (z_ID dst) tx else tx))
       db"

subsection \<open>The SOA serial\<close>

text \<open>
  \<open>Preload("Records").Where("zone_id = ? AND type = ?", id, "SOA").Limit(1).Find(&soa)\<close>:
  the first SOA row of the zone with its records; no row leaves the struct zero, which
  is \<open>None\<close> here.
\<close>

definition find_soa :: "Store \<Rightarrow> nat \<Rightarrow> RRSet option" where
  "find_soa st zid =
     map_option (preload_records st)
       (find (\<lambda>row. rs_ZoneID row = zid \<and> rs_Type row = ''SOA'') (rr_sets st))"

text \<open>The new third field of the SOA data; \<open>now\<close> is \<open>time.Now().Unix()\<close>.\<close>

definition bumped_serial :: "string \<Rightarrow> int \<Rightarrow> string" where
  "bumped_serial serial now =
     (case ParseInt serial of
        Some n \<Rightarrow> FormatInt (inc64 n)
      | None \<Rightarrow> FormatInt now)"

text \<open>\<open>BumpSOASerial\<close> of \<open>internal/db\<close>.\<close>

definition BumpSOASerial :: "Store \<Rightarrow> nat \<Rightarrow> int \<Rightarrow> Store" where
  "BumpSOASerial db zoneID now =
     (case find_soa db zoneID of
        None \<Rightarrow> db
      | Some soa \<Rightarrow>
          (case rs_Records soa of
             [] \<Rightarrow> db
           | r0 # _ \<Rightarrow>
               if rs_ID soa = 0 then db
               else
                 let parts = Fields (rd_Data r0)
                 in if length parts < 7 then db
                    else
                      let parts = parts[2 := bumped_serial (parts ! 2) now]
                      in update_rdata_data (rd_ID r0) (Join parts '' '') db))"

text \<open>\<open>resolveSOAName\<close>.\<close>

definition resolveSOAName :: "string \<Rightarrow> string \<Rightarrow> string \<Rightarrow> string" where
  "resolveSOAName input zone fallback =
     (let v = TrimSpace input;
          v = (if v = [] then fallback else v);
          z = TrimSuffix (ToLower zone) ''.'';
          v = ReplaceAll v ''{zone}'' z;
          v = ToLower (TrimSpace v)
      in if \<not> HasSuffix v ''.'' then v @ ''.'' else v)"

text \<open>The SOA RRSet that \<open>BumpSOASerialAuto\<close> creates when the zone has none.\<close>

definition default_soa :: "Zone \<Rightarrow> string \<Rightarrow> string \<Rightarrow> int \<Rightarrow> RRSet" where
  "default_soa zone primary hostmaster now =
     (let zname = TrimSuffix (ToLower (z_Name zone)) ''.'';
          origin = zname @ ''.'';
          primary = resolveSOAName primary zname ''ns1.{zone}'';
          hostmaster = resolveSOAName hostmaster zname ''hostmaster.{zone}'';
          serial = FormatInt now;
          data = Join [primary, hostmaster, serial, ''7200'', ''3600'', ''1209600'', ''300''] '' ''
      in \<lparr>rs_ID = 0, rs_ZoneID = z_ID zone, rs_Name = origin, rs_Type = ''SOA'', rs_TTL = 3600,
          rs_Records = [\<lparr>rd_ID = 0, rd_RRSetID = 0, rd_Data = data, rd_Country = None,
                          rd_Continent = None, rd_ASN = None, rd_Subnet = None\<rparr>]\<rparr>)"

text \<open>
  \<open>BumpSOASerialAuto\<close> of \<open>internal/db\<close>. The error of \<open>db.Create\<close> and of the final
  update is dropped by the code.
\<close>

definition BumpSOASerialAuto :: "Store \<Rightarrow> Zone \<Rightarrow> bool \<Rightarrow> string \<Rightarrow> string \<Rightarrow> int \<Rightarrow> Store" where
  "BumpSOASerialAuto db zone auto primary hostmaster now =
     (let soa = find_soa db (z_ID zone);
          missing = (case soa of None \<Rightarrow> True
                     | Some s \<Rightarrow> rs_ID s = 0 \<or> length (rs_Records s) = 0)
      in if missing then
           (if \<not> auto then db
            else case create_rrset (default_soa zone primary hostmaster now) db of
                   Inl err \<Rightarrow> db
                 | Inr (created, db') \<Rightarrow> db')
         else
           (case soa of
              None \<Rightarrow> db
            | Some s \<Rightarrow>
                (case rs_Records s of
                   [] \<Rightarrow> db
                 | r0 # _ \<Rightarrow>
                     let parts = Fields (rd_Data r0)
                     in if length parts < 7 then db
                        else
                          let zname = TrimSuffix (ToLower (z_Name zone)) ''.'';
                              parts = (if primary \<noteq> []
                                       then parts[0 := resolveSOAName primary zname (parts ! 0)]
                                       else parts);
                              parts = (if hostmaster \<noteq> []
                                       then parts[1 := resolveSOAName hostmaster zname (parts ! 1)]
                                       else parts);
                              parts = parts[2 := bumped_serial (parts ! 2) now]
                          in update_rdata_data (rd_ID r0) (Join parts '' '') db)))"

subsection \<open>Applying a template (admin panel)\<close>

text \<open>\<open>Preload("Records").First(&template, id)\<close> and \<open>First(&zone, id)\<close>.\<close>

definition first_template :: "Store \<Rightarrow> nat \<Rightarrow> Template option" where
  "first_template st tid =
     map_option (\<lambda>t. t\<lparr>t_Records := filter (\<lambda>r. tr_TemplateID r = tid) (template_records st)\<rparr>)
       (find (\<lambda>t. t_ID t = tid) (templates st))"

definition first_zone :: "Store \<Rightarrow> nat \<Rightarrow> Zone option" where
  "first_zone st zid = find (\<lambda>z. z_ID z = zid) (zones st)"

text \<open>One iteration of the loop of \<open>applyTemplate\<close> over the records of the template.\<close>

definition apply_template_record :: "nat \<Rightarrow> string \<Rightarrow> Store \<Rightarrow> TemplateRecord \<Rightarrow> Store" where
  "apply_template_record zoneID domain db tplRec =
     (let name = ReplaceAll (tr_Name tplRec) ''{domain}'' domain;
          data = ReplaceAll (tr_Data tplRec) ''{domain}'' domain;
          name = ToLower (TrimSpace name);
          name = (if \<not> HasSuffix name ''.'' then name @ ''.'' else name);
          found = first_rrset db zoneID name (tr_Type tplRec);
          created =
            (case found of
               Some rrset \<Rightarrow> Inr (rrset, db)
             | None \<Rightarrow>
                 create_rrset \<lparr>rs_ID = 0, rs_ZoneID = zoneID, rs_Name = name,
                    rs_Type = tr_Type tplRec, rs_TTL = tr_TTL tplRec, rs_Records = []\<rparr> db)
      in case created of
           Inl err \<Rightarrow> db
         | Inr (rrset, db') \<Rightarrow>
             create_rdata \<lparr>rd_ID = 0, rd_RRSetID = rs_ID rrset, rd_Data = data,
                rd_Country = tr_Country tplRec, rd_Continent = tr_Continent tplRec,
                rd_ASN = tr_ASN tplRec, rd_Subnet = tr_Subnet tplRec\<rparr> db')"

text \<open>
  \<open>applyTemplate\<close>: the two parameters are the results of \<open>strconv.ParseUint\<close> on the
  path and query parameters (\<open>None\<close> for an error); the result is the HTTP status and
  the database afterwards. The page that \<open>listRecords\<close> renders at the end has
  status 200.
\<close>

definition applyTemplate :: "Store \<Rightarrow> nat option \<Rightarrow> nat option \<Rightarrow> nat \<times> Store" where
  "applyTemplate db templateID zoneID =
     (case templateID of
        None \<Rightarrow> (400, db)
      | Some tid \<Rightarrow>
          (case zoneID of
             None \<Rightarrow> (400, db)
           | Some zid \<Rightarrow>
               (case first_template db tid of
                  None \<Rightarrow> (404, db)
                | Some template \<Rightarrow>
                    (case first_zone db zid of
                       None \<Rightarrow> (404, db)
                     | Some zone \<Rightarrow>
                         (200, foldl (apply_template_record zid (TrimSuffix (z_Name zone) ''.''))
                                 db (t_Records template))))))"

section \<open>Notions for stating what the store operations do\<close>

text \<open>
  The primary key of \<open>rr_sets\<close> is unique, and the auto-increment key is beyond every
  key in use, also beyond those that rows of \<open>r_data\<close> still refer to.
\<close>

definition wf_store :: "Store \<Rightarrow> bool" where
  "wf_store st =
     (distinct (map rs_ID (rr_sets st))
      \<and> list_all (\<lambda>row. rs_ID row < next_rrset_id st) (rr_sets st)
      \<and> list_all (\<lambda>r. rd_RRSetID r < next_rrset_id st) (r_data st))"

text \<open>A record without the keys that the database assigns.\<close>

definition strip_ids :: "RData \<Rightarrow> RData" where
  "strip_ids r = r\<lparr>rd_ID := 0, rd_RRSetID := 0\<rparr>"

text \<open>
  The content of a zone: for a name and a type, the TTL and the records of the RRSet
  that a lookup by \<open>(zone_id, name, type)\<close> finds.
\<close>

definition zone_view :: "Store \<Rightarrow> nat \<Rightarrow> string \<times> string \<Rightarrow> (nat \<times> RData list) option" where
  "zone_view st zid k =
     map_option (\<lambda>row. (rs_TTL row, map strip_ids (records_of st (rs_ID row))))
       (first_rrset st zid (fst k) (snd k))"

text \<open>The payload after the rewriting of the loop; the first error wins.\<close>

fun incoming_all :: "Zone \<Rightarrow> nat \<Rightarrow> RRSet list \<Rightarrow> error + RRSet list" where
  "incoming_all dst defaultTTL [] = Inr []"
| "incoming_all dst defaultTTL (rs # rest) =
     (case incoming_rrset dst defaultTTL rs of
        Inl err \<Rightarrow> Inl err
      | Inr r \<Rightarrow>
          (case incoming_all dst defaultTTL rest of
             Inl err \<Rightarrow> Inl err
           | Inr rs' \<Rightarrow> Inr (r # rs')))"

definition rrset_key :: "RRSet \<Rightarrow> string \<times> string" where
  "rrset_key rs = (rs_Name rs, rs_Type rs)"

definition payload_entry :: "RRSet \<Rightarrow> (string \<times> string) \<times> (nat \<times> RData list)" where
  "payload_entry rs = (rrset_key rs, (rs_TTL rs, rs_Records rs))"

text \<open>
  The content that a list of incoming RRSets describes: for each name and type, the
  TTL and records of the last RRSet of the list with that name and type.
\<close>

definition payload_view :: "RRSet list \<Rightarrow> string \<times> string \<Rightarrow> (nat \<times> RData list) option" where
  "payload_view rsets = map_of (rev (map payload_entry rsets))"

text \<open>
  What the specification says of an incoming RRSet, in its words: it is stored under the
  normalized name and the type in upper case, with the incoming TTL (the default TTL when
  the incoming one is zero and a default is configured) and the incoming records. An
  entry is the name and the type, and the TTL and the records without their keys.
\<close>

definition imports_as ::
  "Zone \<Rightarrow> nat \<Rightarrow> RRSet \<Rightarrow> (string \<times> string) \<times> (nat \<times> RData list) \<Rightarrow> bool" where
  "imports_as dst defaultTTL rs entry =
     (NormalizeRRSetName (rs_Name rs) (z_Name dst) = Inr (fst (fst entry))
      \<and> snd (fst entry) = ToUpper (rs_Type rs)
      \<and> fst (snd entry) = (if rs_TTL rs = 0 \<and> 0 < defaultTTL then defaultTTL else rs_TTL rs)
      \<and> snd (snd entry) = map strip_ids (rs_Records rs))"

text \<open>A row of \<open>rr_sets\<close> and its records are the same in two states of the store.\<close>

definition untouched :: "Store \<Rightarrow> Store \<Rightarrow> RRSet \<Rightarrow> bool" where
  "untouched st st' row =
     (row \<in> set (rr_sets st') \<and> records_of st' (rs_ID row) = records_of st (rs_ID row))"

text \<open>The unique index of \<open>rr_sets\<close> on \<open>(zone_id, name, type)\<close>.\<close>

definition unique_index :: "Store \<Rightarrow> bool" where
  "unique_index st =
     distinct (map (\<lambda>row. (rs_ZoneID row, rs_Name row, rs_Type row)) (rr_sets st))"

text \<open>A key of \<open>rr_sets\<close> that was given out, has no row any more and no records.\<close>

definition deleted_rrset :: "Store \<Rightarrow> nat \<Rightarrow> bool" where
  "deleted_rrset st i =
     (i < next_rrset_id st \<and> i \<notin> set (map rs_ID (rr_sets st)) \<and> records_of st i = [])"

definition row_key :: "RRSet \<Rightarrow> nat \<times> string \<times> string" where
  "row_key row = (rs_ZoneID row, rs_Name row, rs_Type row)"

text \<open>The SOA RRSets of a zone.\<close>

definition soa_rows :: "Store \<Rightarrow> nat \<Rightarrow> RRSet list" where
  "soa_rows st zid = filter (\<lambda>row. rs_ZoneID row = zid \<and> rs_Type row = ''SOA'') (rr_sets st)"

text \<open>
  A write has left the SOA RRSets of a zone alone: they are the same rows, in the same
  order, with the same records.
\<close>

definition soa_kept :: "Store \<Rightarrow> Store \<Rightarrow> nat \<Rightarrow> bool" where
  "soa_kept st st' zid =
     (soa_rows st' zid = soa_rows st zid
      \<and> list_all (\<lambda>row. records_of st' (rs_ID row) = records_of st (rs_ID row))
           (soa_rows st zid))"

text \<open>
  The fields of the SOA data that the two bump functions read: those of the first record
  of the SOA RRSet that their query finds; \<open>None\<close> when they find no SOA with a record.
\<close>

definition soa_fields :: "Store \<Rightarrow> nat \<Rightarrow> string list option" where
  "soa_fields st zid =
     (case find_soa st zid of
        None \<Rightarrow> None
      | Some s \<Rightarrow>
          if rs_ID s = 0 then None
          else (case rs_Records s of [] \<Rightarrow> None | r0 # rest \<Rightarrow> Some (Fields (rd_Data r0))))"

text \<open>The serial of a zone: the third field of its SOA data, as an integer if it is one.\<close>

definition soa_serial :: "Store \<Rightarrow> nat \<Rightarrow> int option" where
  "soa_serial st zid =
     (case soa_fields st zid of
        None \<Rightarrow> None
      | Some parts \<Rightarrow> if length parts < 3 then None else ParseInt (parts ! 2))"

text \<open>
  The fields of an SOA record after \<open>BumpSOASerialAuto\<close> has put the configured primary
  and hostmaster in, and the fields of the SOA record that it creates.
\<close>

definition soa_overrides :: "Zone \<Rightarrow> string \<Rightarrow> string \<Rightarrow> string list \<Rightarrow> string list" where
  "soa_overrides zone primary hostmaster parts =
     (let zname = TrimSuffix (ToLower (z_Name zone)) ''.'';
          parts = (if primary \<noteq> [] then parts[0 := resolveSOAName primary zname (parts ! 0)]
                   else parts)
      in if hostmaster \<noteq> [] then parts[1 := resolveSOAName hostmaster zname (parts ! 1)]
         else parts)"

definition default_soa_fields :: "Zone \<Rightarrow> string \<Rightarrow> string \<Rightarrow> int \<Rightarrow> string list" where
  "default_soa_fields zone primary hostmaster now =
     (let zname = TrimSuffix (ToLower (z_Name zone)) ''.''
      in [resolveSOAName primary zname ''ns1.{zone}'',
          resolveSOAName hostmaster zname ''hostmaster.{zone}'',
          FormatInt now, ''7200'', ''3600'', ''1209600'', ''300''])"

text \<open>The name under which \<open>applyTemplate\<close> looks for the RRSet of a template record.\<close>

definition template_rrset_name :: "string \<Rightarrow> TemplateRecord \<Rightarrow> string" where
  "template_rrset_name domain tplRec =
     (let name = ToLower (TrimSpace (ReplaceAll (tr_Name tplRec) ''{domain}'' domain))
      in if \<not> HasSuffix name ''.'' then name @ ''.'' else name)"

section \<open>The configuration\<close>

text \<open>The structs of package \<open>config\<close>; Go's \<open>int\<close> is \<open>int\<close>, \<open>uint32\<close> is \<open>nat\<close>.\<close>

record DBConfig =
  db_Driver :: string
  db_DSN :: string

record GeoIPConfig =
  geo_Enabled :: bool
  geo_MMDBPath :: string
  geo_ReloadSec :: int
  geo_UseECS :: bool
  geo_DownloadURLs :: "string list"
  geo_DownloadIntervalSec :: int

record LogConfig =
  log_DNSVerbose :: bool
  log_SQLDebug :: bool

record PerformanceConfig =
  perf_CacheSize :: int
  perf_DNSTimeoutSec :: int
  perf_ForwarderTimeoutSec :: int

record AdminConfig =
  adm_Enabled :: bool
  adm_Username :: string
  adm_PasswordHash :: string

record ReplicationConfig =
  rep_Mode :: string
  rep_MasterURL :: string
  rep_SyncIntervalSec :: int
  rep_APIToken :: string

record SOAConfig =
  soa_Primary :: string
  soa_Hostmaster :: string
  soa_AutoOnMissing :: bool

record Config =
  cfg_Listen :: string
  cfg_Forwarder :: string
  cfg_EnableDNSSEC :: bool
  cfg_APIToken :: string
  cfg_APITokenHash :: string
  cfg_RESTListen :: string
  cfg_TLSCertFile :: string
  cfg_TLSKeyFile :: string
  cfg_TLSReloadSec :: int
  cfg_AllowedCIDRs :: "string list"
  cfg_DefaultTTL :: nat
  cfg_SOA :: SOAConfig
  cfg_AutoSOAOnMissing :: bool
  cfg_DB :: DBConfig
  cfg_GeoIP :: GeoIPConfig
  cfg_Log :: LogConfig
  cfg_Performance :: PerformanceConfig
  cfg_Admin :: AdminConfig
  cfg_Replication :: ReplicationConfig

text \<open>
  What \<open>Load\<close> and \<open>Validate\<close> ask of the operating system and of the libraries:
  \<open>os.ReadFile\<close>, \<open>yaml.Unmarshal\<close> into a zero \<open>Config\<close>, \<open>net.SplitHostPort\<close>,
  \<open>strconv.Atoi\<close>, \<open>net.ParseIP\<close> (is the result not nil), \<open>os.Stat\<close> and
  \<open>os.MkdirAll\<close> (is the error nil) and \<open>net.ParseCIDR\<close> (is the error nil).
\<close>

record Env =
  ReadFile :: "string \<Rightarrow> string option"
  Unmarshal :: "string \<Rightarrow> Config option"
  SplitHostPort :: "string \<Rightarrow> (string \<times> string) option"
  Atoi :: "string \<Rightarrow> int option"
  ParseIP :: "string \<Rightarrow> bool"
  Stat :: "string \<Rightarrow> bool"
  MkdirAll :: "string \<Rightarrow> bool"
  ParseCIDR :: "string \<Rightarrow> bool"

definition IsTLSEnabled :: "Config \<Rightarrow> bool" where
  "IsTLSEnabled c = (cfg_TLSCertFile c \<noteq> [] \<and> cfg_TLSKeyFile c \<noteq> [])"

definition HasIPACL :: "Config \<Rightarrow> bool" where
  "HasIPACL c = (length (cfg_AllowedCIDRs c) > 0)"

text \<open>\<open>validateAddr\<close> and \<open>validateHost\<close>; \<open>None\<close> is the nil error.\<close>

definition validateAddr :: "Env \<Rightarrow> string \<Rightarrow> error option" where
  "validateAddr env addr =
     (case SplitHostPort env addr of
        None \<Rightarrow> Some (ValidationError ''split host port'')
      | Some (host, portStr) \<Rightarrow>
          (case Atoi env portStr of
             None \<Rightarrow> Some (ValidationError ''invalid port'')
           | Some port \<Rightarrow>
               if port < 1 \<or> port > 65535
               then Some (ValidationError ''port must be between 1 and 65535'')
               else if host \<noteq> [] \<and> \<not> ParseIP env host \<and> CHR '' '' \<in> set host
               then Some (ValidationError ''invalid host: contains spaces'')
               else None))"

definition validateHost :: "Env \<Rightarrow> string \<Rightarrow> error option" where
  "validateHost env addr =
     (if ParseIP env addr then None
      else if addr = [] \<or> CHR '' '' \<in> set addr then Some (ValidationError ''invalid hostname'')
      else None)"

text \<open>\<open>Validate\<close>: the first check that fails gives the error.\<close>

definition Validate :: "Env \<Rightarrow> Config \<Rightarrow> error option" where
  "Validate env c =
     (if validateAddr env (cfg_Listen c) \<noteq> None
      then Some (ValidationError ''invalid listen address'')
      else if validateAddr env (cfg_RESTListen c) \<noteq> None
      then Some (ValidationError ''invalid rest_listen address'')
      else if cfg_Forwarder c \<noteq> [] \<and> validateHost env (cfg_Forwarder c) \<noteq> None
      then Some (ValidationError ''invalid forwarder address'')
      else if db_Driver (cfg_DB c) = []
      then Some (ValidationError ''db.driver is required'')
      else if db_DSN (cfg_DB c) = []
      then Some (ValidationError ''db.dsn is required'')
      else if geo_Enabled (cfg_GeoIP c) \<and> geo_MMDBPath (cfg_GeoIP c) = []
      then Some (ValidationError ''geoip.mmdb_path is required when geoip is enabled'')
      else if geo_Enabled (cfg_GeoIP c) \<and> geo_MMDBPath (cfg_GeoIP c) \<noteq> []
              \<and> (if length (geo_DownloadURLs (cfg_GeoIP c)) > 0
                      \<and> geo_DownloadIntervalSec (cfg_GeoIP c) > 0
                  then \<not> MkdirAll env (geo_MMDBPath (cfg_GeoIP c))
                  else \<not> Stat env (geo_MMDBPath (cfg_GeoIP c)))
      then Some (ValidationError ''geoip.mmdb_path'')
      else if perf_CacheSize (cfg_Performance c) < 0
      then Some (ValidationError ''performance.cache_size must be >= 0'')
      else if perf_DNSTimeoutSec (cfg_Performance c) \<le> 0
      then Some (ValidationError ''performance.dns_timeout_sec must be > 0'')
      else if perf_ForwarderTimeoutSec (cfg_Performance c) \<le> 0
      then Some (ValidationError ''performance.forwarder_timeout_sec must be > 0'')
      else if cfg_APIToken c \<noteq> [] \<and> cfg_APITokenHash c \<noteq> []
      then Some (ValidationError ''cannot specify both api_token and api_token_hash'')
      else if rep_Mode (cfg_Replication c) \<noteq> [] \<and> rep_Mode (cfg_Replication c) \<noteq> ''master''
              \<and> rep_Mode (cfg_Replication c) \<noteq> ''slave''
              \<and> rep_Mode (cfg_Replication c) \<noteq> ''standalone''
      then Some (ValidationError ''replication.mode'')
      else if rep_Mode (cfg_Replication c) = ''slave'' \<and> rep_MasterURL (cfg_Replication c) = []
      then Some (ValidationError ''replication.master_url is required'')
      else if rep_Mode (cfg_Replication c) = ''slave''
              \<and> rep_SyncIntervalSec (cfg_Replication c) \<le> 0
      then Some (ValidationError ''replication.sync_interval_sec must be > 0'')
      else if (cfg_TLSCertFile c \<noteq> [] \<and> cfg_TLSKeyFile c = [])
              \<or> (cfg_TLSCertFile c = [] \<and> cfg_TLSKeyFile c \<noteq> [])
      then Some (ValidationError ''both tls_cert_file and tls_key_file must be specified'')
      else if cfg_TLSCertFile c \<noteq> [] \<and> cfg_TLSKeyFile c \<noteq> []
              \<and> \<not> Stat env (cfg_TLSCertFile c)
      then Some (ValidationError ''tls_cert_file'')
      else if cfg_TLSCertFile c \<noteq> [] \<and> cfg_TLSKeyFile c \<noteq> []
              \<and> \<not> Stat env (cfg_TLSKeyFile c)
      then Some (ValidationError ''tls_key_file'')
      else if find (\<lambda>cidr. \<not> ParseCIDR env cidr) (cfg_AllowedCIDRs c) \<noteq> None
      then Some (ValidationError ''allowed_cidrs: invalid CIDR'')
      else None)"

text \<open>The defaults that \<open>Load\<close> fills in, each \<open>if\<close> of it as a step, in its order.\<close>

definition default_RESTListen :: "Config \<Rightarrow> Config" where
  "default_RESTListen cfg =
     (if cfg_RESTListen cfg = [] then cfg\<lparr>cfg_RESTListen := '':8080''\<rparr> else cfg)"

definition default_Listen :: "Config \<Rightarrow> Config" where
  "default_Listen cfg = (if cfg_Listen cfg = [] then cfg\<lparr>cfg_Listen := '':53''\<rparr> else cfg)"

definition default_CacheSize :: "Config \<Rightarrow> Config" where
  "default_CacheSize cfg =
     (if perf_CacheSize (cfg_Performance cfg) = 0
      then cfg\<lparr>cfg_Performance := (cfg_Performance cfg)\<lparr>perf_CacheSize := 1024\<rparr>\<rparr>
      else cfg)"

definition default_DNSTimeoutSec :: "Config \<Rightarrow> Config" where
  "default_DNSTimeoutSec cfg =
     (if perf_DNSTimeoutSec (cfg_Performance cfg) = 0
      then cfg\<lparr>cfg_Performance := (cfg_Performance cfg)\<lparr>perf_DNSTimeoutSec := 2\<rparr>\<rparr>
      else cfg)"

definition default_ForwarderTimeoutSec :: "Config \<Rightarrow> Config" where
  "default_ForwarderTimeoutSec cfg =
     (if perf_ForwarderTimeoutSec (cfg_Performance cfg) = 0
      then cfg\<lparr>cfg_Performance := (cfg_Performance cfg)\<lparr>perf_ForwarderTimeoutSec := 2\<rparr>\<rparr>
      else cfg)"

definition default_SyncIntervalSec :: "Config \<Rightarrow> Config" where
  "default_SyncIntervalSec cfg =
     (if rep_SyncIntervalSec (cfg_Replication cfg) = 0 \<and> rep_Mode (cfg_Replication cfg) = ''slave''
      then cfg\<lparr>cfg_Replication := (cfg_Replication cfg)\<lparr>rep_SyncIntervalSec := 60\<rparr>\<rparr>
      else cfg)"

definition default_TLSReloadSec :: "Config \<Rightarrow> Config" where
  "default_TLSReloadSec cfg =
     (if cfg_TLSReloadSec cfg = 0 \<and> IsTLSEnabled cfg then cfg\<lparr>cfg_TLSReloadSec := 3600\<rparr>
      else cfg)"

definition default_AutoOnMissing :: "Config \<Rightarrow> Config" where
  "default_AutoOnMissing cfg =
     (if \<not> soa_AutoOnMissing (cfg_SOA cfg) \<and> cfg_AutoSOAOnMissing cfg
      then cfg\<lparr>cfg_SOA := (cfg_SOA cfg)\<lparr>soa_AutoOnMissing := True\<rparr>\<rparr>
      else cfg)"

definition disable_admin_on_slave :: "Config \<Rightarrow> Config" where
  "disable_admin_on_slave cfg =
     (if rep_Mode (cfg_Replication cfg) = ''slave'' \<and> adm_Enabled (cfg_Admin cfg)
      then cfg\<lparr>cfg_Admin := (cfg_Admin cfg)\<lparr>adm_Enabled := False\<rparr>\<rparr>
      else cfg)"

definition apply_defaults :: "Config \<Rightarrow> Config" where
  "apply_defaults cfg0 =
     disable_admin_on_slave
       (default_AutoOnMissing
         (default_TLSReloadSec
           (default_SyncIntervalSec
             (default_ForwarderTimeoutSec
               (default_DNSTimeoutSec
                 (default_CacheSize
                   (default_Listen
                     (default_RESTListen cfg0))))))))"

text \<open>\<open>Load\<close>.\<close>

definition Load :: "Env \<Rightarrow> string \<Rightarrow> error + Config" where
  "Load env path =
     (case ReadFile env path of
        None \<Rightarrow> Inl ReadError
      | Some b \<Rightarrow>
          (case Unmarshal env b of
             None \<Rightarrow> Inl ParseError
           | Some cfg0 \<Rightarrow>
               let cfg = apply_defaults cfg0
               in (case Validate env cfg of
                     Some err \<Rightarrow> Inl err
                   | None \<Rightarrow> Inr cfg)))"

section \<open>The DNS server\<close>

subsection \<open>The two caches\<close>

text \<open>
  Modelled from the spec: the type \<open>ZoneCache\<close> of package \<open>dns\<close> with \<open>NewZoneCache\<close>,
  \<open>Get\<close>, \<open>Set\<close> and \<open>Invalidate\<close> is not among the sources. Section 4.2 of the
  specification: a snapshot of the list of zones with a soft expiry; \<open>get\<close> returns
  the snapshot or the sentinel for expired or absent, \<open>set\<close> installs a snapshot and
  resets the expiry timer, \<open>invalidate\<close> marks the snapshot as absent. Time is in
  seconds.
\<close>

record ZoneCache =
  zc_ttl :: int
  zc_snapshot :: "(Zone list \<times> int) option"

definition NewZoneCache :: "int \<Rightarrow> ZoneCache" where
  "NewZoneCache ttl = \<lparr>zc_ttl = ttl, zc_snapshot = None\<rparr>"

definition ZoneCache_Get :: "ZoneCache \<Rightarrow> int \<Rightarrow> Zone list option" where
  "ZoneCache_Get zc now =
     (case zc_snapshot zc of
        None \<Rightarrow> None
      | Some (zs, expires) \<Rightarrow> if now < expires then Some zs else None)"

definition ZoneCache_Set :: "ZoneCache \<Rightarrow> int \<Rightarrow> Zone list \<Rightarrow> ZoneCache" where
  "ZoneCache_Set zc now zs = zc\<lparr>zc_snapshot := Some (zs, now + zc_ttl zc)\<rparr>"

definition ZoneCache_Invalidate :: "ZoneCache \<Rightarrow> ZoneCache" where
  "ZoneCache_Invalidate zc = zc\<lparr>zc_snapshot := None\<rparr>"

text \<open>
  Modelled from the spec: package \<open>internal/cache\<close> (\<open>cache.New\<close>, \<open>Get\<close>, \<open>Set\<close>) is
  not among the sources. Section 4.3 of the specification: a bounded map from a key to
  a message with a TTL; \<open>get\<close> returns the message or absent/expired; \<open>set\<close> stores
  the message; when the cache is full the oldest entry is removed; a size of zero
  disables caching entirely. The entries are kept oldest first, each with the time at
  which it expires.
\<close>

record 'm Cache =
  c_size :: int
  c_entries :: "(string \<times> 'm \<times> int) list"

definition cache_New :: "int \<Rightarrow> 'm Cache" where
  "cache_New n = \<lparr>c_size = n, c_entries = []\<rparr>"

definition cache_Get :: "'m Cache \<Rightarrow> int \<Rightarrow> string \<Rightarrow> 'm option" where
  "cache_Get c now key =
     (case find (\<lambda>e. fst e = key) (c_entries c) of
        None \<Rightarrow> None
      | Some (k, msg, expires) \<Rightarrow> if now < expires then Some msg else None)"

definition cache_Set :: "'m Cache \<Rightarrow> int \<Rightarrow> string \<Rightarrow> 'm \<Rightarrow> int \<Rightarrow> 'm Cache" where
  "cache_Set c now key msg ttl =
     (if c_size c = 0 then c
      else
        let others = filter (\<lambda>e. fst e \<noteq> key) (c_entries c);
            kept = (if int (length others) \<ge> c_size c then drop 1 others else others)
        in c\<lparr>c_entries := kept @ [(key, msg, now + ttl)]\<rparr>)"

subsection \<open>Messages\<close>

text \<open>
  \<open>dns.Question\<close> and \<open>dns.Msg\<close> of the library \<open>miekg/dns\<close>, with the fields that the
  server reads or writes; a resource record is a value of the type \<open>'rr\<close>.
\<close>

record Question =
  q_Name :: string
  q_Qtype :: nat

record 'rr Msg =
  m_Id :: nat
  m_Response :: bool
  m_Authoritative :: bool
  m_Rcode :: nat
  m_Question :: "Question list"
  m_Answer :: "'rr list"

definition RcodeSuccess :: nat where "RcodeSuccess = 0"

definition RcodeNameError :: nat where "RcodeNameError = 3"

text \<open>\<open>new(dns.Msg)\<close> followed by \<open>SetReply(r)\<close>.\<close>

definition SetReply :: "'rr Msg \<Rightarrow> 'rr Msg" where
  "SetReply request =
     \<lparr>m_Id = m_Id request, m_Response = True, m_Authoritative = False, m_Rcode = RcodeSuccess,
      m_Question = take 1 (m_Question request), m_Answer = []\<rparr>"

text \<open>
  \<open>dns.IsFqdn\<close> and \<open>dns.Fqdn\<close> of the library: a name is fully qualified when it ends
  with a dot that is not escaped, that is, preceded by an even number of backslashes.
\<close>

definition IsFqdn :: "string \<Rightarrow> bool" where
  "IsFqdn s =
     (if s = [] \<or> last s \<noteq> CHR ''.'' then False
      else
        let s' = butlast s
        in if s' = [] \<or> last s' \<noteq> CHR 0x5C then True
           else even (length (takeWhile (\<lambda>c. c = CHR 0x5C) (rev s'))))"

definition Fqdn :: "string \<Rightarrow> string" where
  "Fqdn s = (if IsFqdn s then s else s @ ''.'')"

text \<open>
  A request as the handler receives it: the message, the addresses of the client-subnet
  options of its EDNS0 record whose address is not nil, each as \<open>netip.ParseAddr\<close>
  returns it (\<open>None\<close> is the zero \<open>Addr\<close>, which is not valid), and the address of the
  peer, \<open>None\<close> when it has none or it does not parse.
\<close>

record ('ip, 'rr) Request =
  req_Msg :: "'rr Msg"
  req_ECS :: "'ip option list"
  req_RemoteAddr :: "'ip option"

text \<open>
  What the server asks of its libraries and of the network: \<open>dns.TypeToString\<close>,
  \<open>dns.NewRR\<close> (\<open>None\<close> for a parse error), the Geo provider's \<open>Lookup\<close>,
  \<open>netip.ParsePrefix\<close> with \<open>Contains\<close>, \<open>Addr.String\<close>, and the exchange with
  the forwarder for a name and a type (\<open>None\<close> for an error or no reply).
\<close>

record ('ip, 'rr) DnsLib =
  TypeToString :: "nat \<Rightarrow> string"
  NewRR :: "string \<Rightarrow> 'rr option"
  geoLookup :: "'ip option \<Rightarrow> Info"
  prefixContains :: "string \<Rightarrow> 'ip \<Rightarrow> bool"
  addrString :: "'ip \<Rightarrow> string"
  Exchange :: "string \<Rightarrow> string \<Rightarrow> nat \<Rightarrow> 'rr Msg option"

subsection \<open>The server\<close>

record 'rr DnsServer =
  srv_cfg :: Config
  srv_cache :: "'rr Msg Cache"
  srv_zoneCache :: ZoneCache
  srv_lastRule :: string

text \<open>\<open>NewServer\<close>; the zone cache lives for five minutes.\<close>

definition NewServer :: "Config \<Rightarrow> 'rr DnsServer" where
  "NewServer cfg =
     \<lparr>srv_cfg = cfg,
      srv_cache = cache_New (perf_CacheSize (cfg_Performance cfg)),
      srv_zoneCache = NewZoneCache (5 * 60),
      srv_lastRule = []\<rparr>"

definition InvalidateZoneCache :: "'rr DnsServer \<Rightarrow> 'rr DnsServer" where
  "InvalidateZoneCache s = s\<lparr>srv_zoneCache := ZoneCache_Invalidate (srv_zoneCache s)\<rparr>"

text \<open>\<open>clientIPFrom\<close>.\<close>

definition clientIPFrom :: "('ip, 'rr) Request \<Rightarrow> bool \<Rightarrow> 'ip option" where
  "clientIPFrom r useECS =
     (if useECS then (case req_ECS r of a # rest \<Rightarrow> a | [] \<Rightarrow> req_RemoteAddr r)
      else req_RemoteAddr r)"

text \<open>\<open>db.Order("length(name) desc").Find(&zones)\<close>; zones of equal length keep their order.\<close>

definition zones_by_length :: "Store \<Rightarrow> Zone list" where
  "zones_by_length db = sort_key (\<lambda>z. - int (length (z_Name z))) (zones db)"

text \<open>The first part of \<open>lookup\<close>: the list of zones, from the zone cache or the store.\<close>

definition lookup_zones :: "'rr DnsServer \<Rightarrow> Store \<Rightarrow> int \<Rightarrow> Zone list \<times> 'rr DnsServer" where
  "lookup_zones s db now =
     (case ZoneCache_Get (srv_zoneCache s) now of
        Some zs \<Rightarrow> (zs, s)
      | None \<Rightarrow>
          let zs = zones_by_length db
          in (zs, s\<lparr>srv_zoneCache := ZoneCache_Set (srv_zoneCache s) now zs\<rparr>))"

text \<open>The loop of \<open>lookup\<close> that picks the zone.\<close>

definition select_zone :: "Zone list \<Rightarrow> string \<Rightarrow> Zone option" where
  "select_zone zs qname = find (\<lambda>z. HasSuffix qname (Fqdn (ToLower (z_Name z)))) zs"

text \<open>The record line that is handed to \<open>dns.NewRR\<close>: \<open>"%s %d %s %s"\<close>.\<close>

definition rr_line :: "string \<Rightarrow> nat \<Rightarrow> string \<Rightarrow> string \<Rightarrow> string" where
  "rr_line qname ttl typ data =
     qname @ '' '' @ FormatInt (int ttl) @ '' '' @ typ @ '' '' @ data"

text \<open>
  The two loops of \<open>lookup\<close> that make the answers: for a CNAME RRSet that stands in
  for the type asked, and for the records that the Geo selector has chosen. A line that
  \<open>dns.NewRR\<close> does not parse is skipped.
\<close>

definition cname_answers ::
  "('ip, 'rr) DnsLib \<Rightarrow> string \<Rightarrow> Zone \<Rightarrow> RRSet \<Rightarrow> 'rr list" where
  "cname_answers lib qname zone cnameSet =
     List.map_filter
       (\<lambda>rd.
          let target = (if TrimSpace (rd_Data rd) = ''@''
                        then Fqdn (ToLower (z_Name zone)) else rd_Data rd)
          in NewRR lib (rr_line qname (rs_TTL cnameSet) ''CNAME'' target))
       (rs_Records cnameSet)"

definition record_answers ::
  "('ip, 'rr) DnsLib \<Rightarrow> string \<Rightarrow> string \<Rightarrow> Zone \<Rightarrow> RRSet \<Rightarrow> RData list \<Rightarrow> 'rr list" where
  "record_answers lib qname qtype zone rrset recs =
     List.map_filter
       (\<lambda>rd.
          let data = (if EqualFold qtype ''CNAME'' \<and> TrimSpace (rd_Data rd) = ''@''
                      then Fqdn (ToLower (z_Name zone)) else rd_Data rd)
          in NewRR lib (rr_line qname (rs_TTL rrset) (ToUpper qtype) data))
       recs"

text \<open>The part of \<open>lookup\<close> after the zone has been found.\<close>

definition lookup_in_zone ::
  "('ip, 'rr) DnsLib \<Rightarrow> 'rr DnsServer \<Rightarrow> Store \<Rightarrow> string \<Rightarrow> string \<Rightarrow> Zone \<Rightarrow> 'ip option
     \<Rightarrow> (error + 'rr list \<times> nat) \<times> 'rr DnsServer" where
  "lookup_in_zone lib s db qname qtype zone clientIP =
     (case first_rrset db (z_ID zone) (ToLower qname) (ToUpper qtype) of
        None \<Rightarrow>
          (case first_rrset db (z_ID zone) (ToLower qname) ''CNAME'' of
             Some cnameRow \<Rightarrow>
               let cnameSet = preload_records db cnameRow
               in (Inr (cname_answers lib qname zone cnameSet, rs_TTL cnameSet), s)
           | None \<Rightarrow> (Inl RecordNotFound, s))
      | Some row \<Rightarrow>
          let rrset = preload_records db row;
              g = geoLookup lib clientIP;
              (recs, rule) = selectGeoRecords (prefixContains lib) (rs_Records rrset) clientIP g
          in (Inr (record_answers lib qname qtype zone rrset recs, rs_TTL rrset),
              s\<lparr>srv_lastRule := rule\<rparr>))"

text \<open>
  \<open>lookup\<close>: the answers and the TTL, or the error, and the server with its zone cache
  and last rule updated.
\<close>

definition lookup ::
  "('ip, 'rr) DnsLib \<Rightarrow> 'rr DnsServer \<Rightarrow> Store \<Rightarrow> int \<Rightarrow> Question \<Rightarrow> 'ip option
     \<Rightarrow> (error + 'rr list \<times> nat) \<times> 'rr DnsServer" where
  "lookup lib s db now q clientIP =
     (let qname = ToLower (Fqdn (q_Name q));
          qtype = TypeToString lib (q_Qtype q);
          (zs, s1) = lookup_zones s db now
      in case select_zone zs qname of
           None \<Rightarrow> (Inl NoZone, s1)
         | Some zone \<Rightarrow> lookup_in_zone lib s1 db qname qtype zone clientIP)"

text \<open>The key of the response cache: \<open>"%s|%d|%s"\<close>.\<close>

definition cache_key :: "('ip, 'rr) DnsLib \<Rightarrow> Question \<Rightarrow> 'ip option \<Rightarrow> string" where
  "cache_key lib q cip =
     ToLower (q_Name q) @ ''|'' @ FormatInt (int (q_Qtype q)) @ ''|''
       @ (case cip of None \<Rightarrow> [] | Some a \<Rightarrow> addrString lib a)"

text \<open>
  The end of \<open>serveDNS\<close>, after the local lookup has given no answer: the reply of the
  forwarder, if one is configured and replies, and the local NXDOMAIN otherwise.
\<close>

definition serve_unanswered ::
  "('ip, 'rr) DnsLib \<Rightarrow> 'rr DnsServer \<Rightarrow> int \<Rightarrow> 'rr Msg \<Rightarrow> 'rr Msg \<Rightarrow> Question \<Rightarrow> string
     \<Rightarrow> 'rr Msg \<times> 'rr DnsServer" where
  "serve_unanswered lib s now request m q key =
     (let forwarded =
            (if cfg_Forwarder (srv_cfg s) \<noteq> []
             then Exchange lib (cfg_Forwarder (srv_cfg s)) (Fqdn (q_Name q)) (q_Qtype q)
             else None)
      in case forwarded of
           Some reply0 \<Rightarrow>
             let reply = reply0\<lparr>m_Id := m_Id request\<rparr>
             in (reply,
                 if m_Rcode reply \<noteq> RcodeSuccess
                 then s\<lparr>srv_cache := cache_Set (srv_cache s) now key reply (5 * 60)\<rparr>
                 else s)
         | None \<Rightarrow>
             let m = m\<lparr>m_Rcode := RcodeNameError\<rparr>
             in (m, s\<lparr>srv_cache := cache_Set (srv_cache s) now key m (5 * 60)\<rparr>))"

text \<open>
  \<open>serveDNS\<close>: the message that is written to the client and the server afterwards.
  \<open>now\<close> is the time of the request in seconds. Logging is left out.
\<close>

definition serveDNS ::
  "('ip, 'rr) DnsLib \<Rightarrow> 'rr DnsServer \<Rightarrow> Store \<Rightarrow> int \<Rightarrow> ('ip, 'rr) Request
     \<Rightarrow> 'rr Msg \<times> 'rr DnsServer" where
  "serveDNS lib s db now r =
     (let m = (SetReply (req_Msg r))\<lparr>m_Authoritative := True\<rparr>
      in case m_Question (req_Msg r) of
           [] \<Rightarrow> (m, s)
         | q0 # rest \<Rightarrow>
             let q = q0\<lparr>q_Name := ToLower (q_Name q0)\<rparr>;
                 cip = clientIPFrom r (geo_UseECS (cfg_GeoIP (srv_cfg s)));
                 key = cache_key lib q cip
             in case cache_Get (srv_cache s) now key of
                  Some cached \<Rightarrow>
                    (cached\<lparr>m_Id := m_Id (req_Msg r), m_Question := m_Question (req_Msg r)\<rparr>, s)
                | None \<Rightarrow>
                    let (res, s1) = lookup lib s db now q cip
                    in case res of
                         Inr (answers, ttl) \<Rightarrow>
                           if length answers > 0
                           then
                             let m = m\<lparr>m_Answer := answers\<rparr>
                             in (m, if ttl > 0
                                    then s1\<lparr>srv_cache :=
                                              cache_Set (srv_cache s1) now key m (int ttl)\<rparr>
                                    else s1)
                           else serve_unanswered lib s1 now (req_Msg r) m q key
                       | Inl err \<Rightarrow> serve_unanswered lib s1 now (req_Msg r) m q key)"

text \<open>The local lookup has given an error or no answer.\<close>

definition unanswered :: "(error + 'rr list \<times> nat) \<Rightarrow> bool" where
  "unanswered res = (case res of Inl err \<Rightarrow> True | Inr (answers, ttl) \<Rightarrow> answers = [])"

section \<open>The REST handlers that write\<close>

subsection \<open>Their GORM calls\<close>

text \<open>
  \<open>Create(&z)\<close> for a zone whose ID is zero; the unique index on the name rejects a
  second zone with the same name.
\<close>

definition create_zone :: "Zone \<Rightarrow> Store \<Rightarrow> error + (Zone \<times> Store)" where
  "create_zone z st =
     (if find (\<lambda>row. z_Name row = z_Name z) (zones st) \<noteq> None then Inl UniqueViolation
      else
        let new_id = next_zone_id st
        in Inr (z\<lparr>z_ID := new_id\<rparr>,
                st\<lparr>zones := zones st @ [z\<lparr>z_ID := new_id, z_RRSets := []\<rparr>],
                   next_zone_id := Suc new_id\<rparr>))"

text \<open>
  The transaction of \<open>deleteZone\<close>: \<open>Where("zone_id = ?", z.ID).Delete(&RRSet{})\<close> and
  \<open>Delete(&z)\<close>. The records of the RRSets stay in \<open>r_data\<close>.
\<close>

definition delete_zone :: "Zone \<Rightarrow> Store \<Rightarrow> Store" where
  "delete_zone z tx =
     (let tx1 = tx\<lparr>rr_sets := filter (\<lambda>row. rs_ZoneID row \<noteq> z_ID z) (rr_sets tx)\<rparr>
      in tx1\<lparr>zones := filter (\<lambda>row. z_ID row \<noteq> z_ID z) (zones tx1)\<rparr>)"

text \<open>\<open>Preload("Records").Where("zone_id = ? AND id = ?", z.ID, rid).First(&set)\<close>.\<close>

definition first_rrset_by_id :: "Store \<Rightarrow> nat \<Rightarrow> nat \<Rightarrow> RRSet option" where
  "first_rrset_by_id st zid rid =
     map_option (preload_records st)
       (find (\<lambda>row. rs_ZoneID row = zid \<and> rs_ID row = rid) (rr_sets st))"

text \<open>
  \<open>Save(&set)\<close> for an RRSet whose name and type may have changed: the unique index on
  \<open>(zone_id, name, type)\<close> rejects the update when another row has the triple.
\<close>

definition update_rrset :: "RRSet \<Rightarrow> Store \<Rightarrow> error + Store" where
  "update_rrset e st =
     (if find (\<lambda>row. rs_ID row \<noteq> rs_ID e \<and> rs_ZoneID row = rs_ZoneID e
                      \<and> rs_Name row = rs_Name e \<and> rs_Type row = rs_Type e) (rr_sets st) \<noteq> None
      then Inl UniqueViolation
      else Inr (save_rrset e st))"

text \<open>
  \<open>Delete(&RRSet{}, "zone_id = ? AND id = ?", z.ID, rid)\<close>; \<open>rid\<close> is the path parameter
  as a number, \<open>None\<close> when it is not one, and then no row has it. The records of the
  RRSet stay in \<open>r_data\<close>.
\<close>

definition delete_rrset :: "nat \<Rightarrow> nat option \<Rightarrow> Store \<Rightarrow> Store" where
  "delete_rrset zid rid st =
     st\<lparr>rr_sets := filter (\<lambda>row. \<not> (rs_ZoneID row = zid \<and> Some (rs_ID row) = rid)) (rr_sets st)\<rparr>"

text \<open>The calls of \<open>syncImport\<close> on the tables of the templates.\<close>

definition create_template :: "Template \<Rightarrow> Store \<Rightarrow> Template \<times> Store" where
  "create_template t st =
     (let new_id = next_template_id st
      in (t\<lparr>t_ID := new_id\<rparr>,
          st\<lparr>templates := templates st @ [t\<lparr>t_ID := new_id, t_Records := []\<rparr>],
             next_template_id := Suc new_id\<rparr>))"

definition save_template :: "Template \<Rightarrow> Store \<Rightarrow> Store" where
  "save_template t st =
     st\<lparr>templates := map (\<lambda>row. if t_ID row = t_ID t then t\<lparr>t_Records := []\<rparr> else row)
                          (templates st)\<rparr>"

definition delete_template_records :: "nat \<Rightarrow> Store \<Rightarrow> Store" where
  "delete_template_records tid st =
     st\<lparr>template_records := filter (\<lambda>r. tr_TemplateID r \<noteq> tid) (template_records st)\<rparr>"

definition create_template_record :: "TemplateRecord \<Rightarrow> Store \<Rightarrow> Store" where
  "create_template_record r st =
     st\<lparr>template_records := template_records st @ [r\<lparr>tr_ID := next_template_record_id st\<rparr>],
        next_template_record_id := Suc (next_template_record_id st)\<rparr>"

subsection \<open>The server and its requests\<close>

text \<open>
  The REST server: its configuration, its database, and the DNS server whose zone cache
  it invalidates (\<open>None\<close> is the nil interface).
\<close>

record 'rr RestServer =
  rest_cfg :: Config
  rest_db :: Store
  rest_dnsServer :: "'rr DnsServer option"

text \<open>\<open>if s.dnsServer != nil { s.dnsServer.InvalidateZoneCache() }\<close>.\<close>

definition invalidate :: "'rr RestServer \<Rightarrow> 'rr RestServer" where
  "invalidate s = s\<lparr>rest_dnsServer := map_option InvalidateZoneCache (rest_dnsServer s)\<rparr>"

text \<open>
  The call of \<open>BumpSOASerialAuto\<close> of the handlers, with the SOA settings of the
  configuration; \<open>now\<close> is the time of the call in seconds.
\<close>

definition bump_auto :: "'rr RestServer \<Rightarrow> Zone \<Rightarrow> int \<Rightarrow> Store \<Rightarrow> Store" where
  "bump_auto s z now db =
     BumpSOASerialAuto db z (soa_AutoOnMissing (cfg_SOA (rest_cfg s)))
       (soa_Primary (cfg_SOA (rest_cfg s))) (soa_Hostmaster (cfg_SOA (rest_cfg s))) now"

text \<open>\<open>rrsetReq\<close>, \<open>normalizePtr\<close> and \<open>recordsNormalized\<close>.\<close>

record rrsetReq =
  rq_Name :: string
  rq_Type :: string
  rq_TTL :: nat
  rq_Records :: "RData list"

definition normalizePtr :: "string option \<Rightarrow> string option" where
  "normalizePtr p =
     (case p of
        None \<Rightarrow> None
      | Some v \<Rightarrow> let s = TrimSpace v in if s = [] then None else Some (ToUpper s))"

definition recordsNormalized :: "rrsetReq \<Rightarrow> RData list" where
  "recordsNormalized r =
     map (\<lambda>x. \<lparr>rd_ID = 0, rd_RRSetID = 0, rd_Data = TrimSpace (rd_Data x),
                rd_Country = normalizePtr (rd_Country x),
                rd_Continent = normalizePtr (rd_Continent x),
                rd_ASN = rd_ASN x,
                rd_Subnet = normalizePtr (rd_Subnet x)\<rparr>)
       (rq_Records r)"

text \<open>The loop that expands the shorthand \<open>@\<close> in the records of a CNAME RRSet.\<close>

definition expand_apex :: "string \<Rightarrow> string \<Rightarrow> RData list \<Rightarrow> RData list" where
  "expand_apex typ zoneName recs =
     (if EqualFold typ ''CNAME''
      then map (\<lambda>r. if TrimSpace (rd_Data r) = ''@'' then r\<lparr>rd_Data := fqdn ''@'' zoneName\<rparr>
                     else r) recs
      else recs)"

text \<open>\<open>SyncData\<close>.\<close>

record SyncData =
  sd_Zones :: "Zone list"
  sd_Templates :: "Template list"

text \<open>
  What \<open>importZone\<close> asks of its libraries: the decoding of a JSON body into a zone
  (\<open>Decode\<close>, \<open>stripTimestamps\<close>, \<open>Marshal\<close> and \<open>Unmarshal\<close>; \<open>None\<close> when one of them
  fails), and \<open>zoneio.ImportBIND\<close>, which reads the body with the zone parser of
  \<open>miekg/dns\<close> and writes the RRSets in the order of a Go map: the error that it returns,
  if any, and the database afterwards.
\<close>

record RestLib =
  DecodeZone :: "string \<Rightarrow> Zone option"
  ImportBIND :: "Store \<Rightarrow> Zone \<Rightarrow> string \<Rightarrow> string \<Rightarrow> nat \<Rightarrow> error option \<times> Store"

subsection \<open>The handlers\<close>

text \<open>
  Each handler is given what \<open>gin\<close> hands to it and returns the HTTP status of its
  response and the server afterwards. A path parameter \<open>id\<close> or \<open>rid\<close> is given as the
  number that it denotes, \<open>None\<close> when it denotes none; no row has such a key. A JSON
  body is given as the value that \<open>ShouldBindJSON\<close> binds, \<open>None\<close> when it returns an
  error. A failure of the database other than "record not found" and the violation of
  a unique index is not modelled.
\<close>

definition zone_param :: "Store \<Rightarrow> nat option \<Rightarrow> Zone option" where
  "zone_param db zp = (case zp of None \<Rightarrow> None | Some zid \<Rightarrow> first_zone db zid)"

text \<open>\<open>createZone\<close>; the body is the name of \<open>zoneReq\<close>.\<close>

definition createZone :: "'rr RestServer \<Rightarrow> string option \<Rightarrow> nat \<times> 'rr RestServer" where
  "createZone s req =
     (case req of
        None \<Rightarrow> (400, s)
      | Some name \<Rightarrow>
          if name = [] then (400, s)
          else
            (case create_zone \<lparr>z_ID = 0, z_Name = ToLower name, z_RRSets = []\<rparr> (rest_db s) of
               Inl err \<Rightarrow> (400, s)
             | Inr (z, db') \<Rightarrow> (201, invalidate (s\<lparr>rest_db := db'\<rparr>))))"

text \<open>\<open>deleteZone\<close>.\<close>

definition deleteZone :: "'rr RestServer \<Rightarrow> nat option \<Rightarrow> nat \<times> 'rr RestServer" where
  "deleteZone s zp =
     (case zone_param (rest_db s) zp of
        None \<Rightarrow> (404, s)
      | Some z \<Rightarrow>
          (case Transaction (\<lambda>tx. Inr (delete_zone z tx)) (rest_db s) of
             (Some err, db') \<Rightarrow> (500, s)
           | (None, db') \<Rightarrow> (204, invalidate (s\<lparr>rest_db := db'\<rparr>))))"

text \<open>\<open>createRRSet\<close>.\<close>

definition createRRSet ::
  "'rr RestServer \<Rightarrow> nat option \<Rightarrow> rrsetReq option \<Rightarrow> int \<Rightarrow> nat \<times> 'rr RestServer" where
  "createRRSet s zp body now =
     (case zone_param (rest_db s) zp of
        None \<Rightarrow> (404, s)
      | Some z \<Rightarrow>
          (case body of
             None \<Rightarrow> (400, s)
           | Some req \<Rightarrow>
               let name = ToLower (fqdn (rq_Name req) (z_Name z));
                   recordType = ToUpper (rq_Type req)
               in case first_rrset (rest_db s) (z_ID z) name recordType of
                    Some existing \<Rightarrow> (409, s)
                  | None \<Rightarrow>
                      let ttl = (if rq_TTL req = 0 \<and> cfg_DefaultTTL (rest_cfg s) > 0
                                 then cfg_DefaultTTL (rest_cfg s) else rq_TTL req);
                          rrset = \<lparr>rs_ID = 0, rs_ZoneID = z_ID z, rs_Name = name,
                                   rs_Type = recordType, rs_TTL = ttl,
                                   rs_Records =
                                     expand_apex recordType (z_Name z) (recordsNormalized req)\<rparr>
                      in case create_rrset rrset (rest_db s) of
                           Inl err \<Rightarrow> (400, s)
                         | Inr (created, db') \<Rightarrow>
                             (201, invalidate (s\<lparr>rest_db := bump_auto s z now db'\<rparr>))))"

text \<open>\<open>updateRRSet\<close>, which is \<open>patchRRSet\<close> as well.\<close>

definition updateRRSet ::
  "'rr RestServer \<Rightarrow> nat option \<Rightarrow> nat option \<Rightarrow> rrsetReq option \<Rightarrow> int
     \<Rightarrow> nat \<times> 'rr RestServer" where
  "updateRRSet s zp rid body now =
     (case zone_param (rest_db s) zp of
        None \<Rightarrow> (404, s)
      | Some z \<Rightarrow>
          (case (case rid of None \<Rightarrow> None
                 | Some r \<Rightarrow> first_rrset_by_id (rest_db s) (z_ID z) r) of
             None \<Rightarrow> (404, s)
           | Some set0 \<Rightarrow>
               (case body of
                  None \<Rightarrow> (400, s)
                | Some req \<Rightarrow>
                    let ttl = (if rq_TTL req = 0 \<and> cfg_DefaultTTL (rest_cfg s) > 0
                               then cfg_DefaultTTL (rest_cfg s) else rq_TTL req);
                        set1 = set0\<lparr>rs_Name := ToLower (fqdn (rq_Name req) (z_Name z)),
                                    rs_Type := ToUpper (rq_Type req), rs_TTL := ttl\<rparr>
                    in case Transaction
                              (\<lambda>tx. update_rrset
                                       (set1\<lparr>rs_Records :=
                                                expand_apex (rs_Type set1) (z_Name z)
                                                  (recordsNormalized req)\<rparr>)
                                       (delete_records_of (rs_ID set1) tx))
                              (rest_db s) of
                         (Some err, db') \<Rightarrow> (500, s)
                       | (None, db') \<Rightarrow>
                           (200, invalidate (s\<lparr>rest_db := bump_auto s z now db'\<rparr>)))))"

definition patchRRSet ::
  "'rr RestServer \<Rightarrow> nat option \<Rightarrow> nat option \<Rightarrow> rrsetReq option \<Rightarrow> int
     \<Rightarrow> nat \<times> 'rr RestServer" where
  "patchRRSet s zp rid body now = updateRRSet s zp rid body now"

text \<open>\<open>deleteRRSet\<close>.\<close>

definition deleteRRSet ::
  "'rr RestServer \<Rightarrow> nat option \<Rightarrow> nat option \<Rightarrow> int \<Rightarrow> nat \<times> 'rr RestServer" where
  "deleteRRSet s zp rid now =
     (case zone_param (rest_db s) zp of
        None \<Rightarrow> (404, s)
      | Some z \<Rightarrow>
          (204, invalidate
                  (s\<lparr>rest_db :=
                       BumpSOASerial (delete_rrset (z_ID z) rid (rest_db s)) (z_ID z) now\<rparr>)))"

text \<open>
  \<open>importZone\<close>; \<open>format\<close> and \<open>mode\<close> are what \<open>DefaultQuery\<close> returns. The zone is
  read with its RRSets, which neither \<open>ImportJSON\<close> nor \<open>BumpSOASerialAuto\<close> looks at.
\<close>

definition importZone ::
  "RestLib \<Rightarrow> 'rr RestServer \<Rightarrow> nat option \<Rightarrow> string \<Rightarrow> string \<Rightarrow> string \<Rightarrow> int
     \<Rightarrow> nat \<times> 'rr RestServer" where
  "importZone lib s zp format0 mode0 body now =
     (let format = ToLower format0;
          mode = ToLower mode0
      in if mode \<noteq> ''upsert'' \<and> mode \<noteq> ''replace'' then (400, s)
         else
           (case zone_param (rest_db s) zp of
              None \<Rightarrow> (404, s)
            | Some z \<Rightarrow>
                if format = ''json'' then
                  (case DecodeZone lib body of
                     None \<Rightarrow> (400, s)
                   | Some payload \<Rightarrow>
                       (case ImportJSON (rest_db s) z payload mode (cfg_DefaultTTL (rest_cfg s)) of
                          (Some err, db') \<Rightarrow> (500, s)
                        | (None, db') \<Rightarrow>
                            (204, invalidate (s\<lparr>rest_db := bump_auto s z now db'\<rparr>))))
                else if format = ''bind'' then
                  (case ImportBIND lib (rest_db s) z body mode (cfg_DefaultTTL (rest_cfg s)) of
                     (Some err, db') \<Rightarrow> (400, s\<lparr>rest_db := db'\<rparr>)
                   | (None, db') \<Rightarrow>
                       (204, invalidate (s\<lparr>rest_db := bump_auto s z now db'\<rparr>)))
                else (400, s)))"

text \<open>The loops of the transaction of \<open>syncImport\<close>.\<close>

fun sync_rrsets :: "nat \<Rightarrow> RRSet list \<Rightarrow> Store \<Rightarrow> error + Store" where
  "sync_rrsets zid [] tx = Inr tx"
| "sync_rrsets zid (rrset # rest) tx =
     (case create_rrset
             \<lparr>rs_ID = 0, rs_ZoneID = zid, rs_Name = rs_Name rrset, rs_Type = rs_Type rrset,
              rs_TTL = rs_TTL rrset,
              rs_Records = map (\<lambda>r. r\<lparr>rd_ID := 0\<rparr>) (rs_Records rrset)\<rparr> tx of
        Inl err \<Rightarrow> Inl err
      | Inr (created, tx') \<Rightarrow> sync_rrsets zid rest tx')"

definition sync_zone :: "Zone \<Rightarrow> Store \<Rightarrow> error + Store" where
  "sync_zone zone tx =
     (case (case find (\<lambda>row. z_Name row = z_Name zone) (zones tx) of
              Some existing \<Rightarrow> Inr (existing, tx)
            | None \<Rightarrow> create_zone \<lparr>z_ID = 0, z_Name = z_Name zone, z_RRSets = []\<rparr> tx) of
        Inl err \<Rightarrow> Inl err
      | Inr (existingZone, tx1) \<Rightarrow>
          sync_rrsets (z_ID existingZone) (z_RRSets zone)
            (delete_zone_rrsets (z_ID existingZone) tx1))"

fun sync_zones :: "Zone list \<Rightarrow> Store \<Rightarrow> error + Store" where
  "sync_zones [] tx = Inr tx"
| "sync_zones (zone # rest) tx =
     (case sync_zone zone tx of
        Inl err \<Rightarrow> Inl err
      | Inr tx' \<Rightarrow> sync_zones rest tx')"

definition sync_template :: "Store \<Rightarrow> Template \<Rightarrow> Store" where
  "sync_template tx tmpl =
     (let (existingTmpl, tx1) =
            (case find (\<lambda>row. t_Name row = t_Name tmpl) (templates tx) of
               None \<Rightarrow>
                 create_template
                   \<lparr>t_ID = 0, t_Name = t_Name tmpl, t_Description = t_Description tmpl,
                    t_Records = []\<rparr> tx
             | Some existing \<Rightarrow>
                 let updated = existing\<lparr>t_Description := t_Description tmpl\<rparr>
                 in (updated, save_template updated tx));
          tx2 = delete_template_records (t_ID existingTmpl) tx1
      in foldl (\<lambda>tx3 r. create_template_record (r\<lparr>tr_ID := 0, tr_TemplateID := t_ID existingTmpl\<rparr>)
                           tx3)
           tx2 (t_Records tmpl))"

text \<open>\<open>syncImport\<close>.\<close>

definition syncImport :: "'rr RestServer \<Rightarrow> SyncData option \<Rightarrow> nat \<times> 'rr RestServer" where
  "syncImport s body =
     (case body of
        None \<Rightarrow> (400, s)
      | Some data \<Rightarrow>
          (case Transaction
                  (\<lambda>tx. case sync_zones (sd_Zones data) tx of
                           Inl err \<Rightarrow> Inl err
                         | Inr tx1 \<Rightarrow> Inr (foldl sync_template tx1 (sd_Templates data)))
                  (rest_db s) of
             (Some err, db') \<Rightarrow> (500, s)
           | (None, db') \<Rightarrow> (200, invalidate (s\<lparr>rest_db := db'\<rparr>))))"

text \<open>The statuses with which a handler reports success.\<close>

definition succeeded :: "nat \<Rightarrow> bool" where
  "succeeded status = (status = 200 \<or> status = 201 \<or> status = 204)"


section \<open>Notions for stating what the handlers do to the SOA\<close>

text \<open>The path parameter \<open>rid\<close> names an SOA RRSet of the zone.\<close>

definition names_soa_rrset :: "Store \<Rightarrow> nat \<Rightarrow> nat option \<Rightarrow> bool" where
  "names_soa_rrset db zid rid =
     list_ex (\<lambda>row. rs_ZoneID row = zid \<and> Some (rs_ID row) = rid \<and> rs_Type row = ''SOA'')
       (rr_sets db)"

text \<open>The payload of an import has an RRSet of type SOA.\<close>

definition soa_in_payload :: "Zone \<Rightarrow> bool" where
  "soa_in_payload payload = list_ex (\<lambda>rs. ToUpper (rs_Type rs) = ''SOA'') (z_RRSets payload)"

text \<open>A time that fits the \<open>int64\<close> of \<open>time.Now().Unix()\<close>.\<close>

definition is_int64 :: "int \<Rightarrow> bool" where
  "is_int64 n = (- (2 ^ 63) \<le> n \<and> n < 2 ^ 63)"


section \<open>Scenario 4 of the specification (import: replace and upsert)\<close>

text \<open>
  The zone \<open>example4.com\<close> holds an A and an MX RRSet at its apex; the payload holds the
  A RRSet only, with another address.
\<close>

definition scenario4_zone :: Zone where
  "scenario4_zone = \<lparr>z_ID = 1, z_Name = ''example4.com'', z_RRSets = []\<rparr>"

definition scenario4_db :: Store where
  "scenario4_db =
     \<lparr>zones = [scenario4_zone],
      rr_sets =
        [\<lparr>rs_ID = 1, rs_ZoneID = 1, rs_Name = ''example4.com.'', rs_Type = ''A'', rs_TTL = 300,
           rs_Records = []\<rparr>,
         \<lparr>rs_ID = 2, rs_ZoneID = 1, rs_Name = ''example4.com.'', rs_Type = ''MX'', rs_TTL = 300,
           rs_Records = []\<rparr>],
      r_data =
        [(plain_record ''192.0.2.10'')\<lparr>rd_ID := 1, rd_RRSetID := 1\<rparr>,
         (plain_record ''mail.example4.com.'')\<lparr>rd_ID := 2, rd_RRSetID := 2\<rparr>],
      templates = [], template_records = [],
      next_rrset_id = 3, next_rdata_id = 3,
      next_zone_id = 2, next_template_id = 1, next_template_record_id = 1\<rparr>"

definition scenario4_payload :: Zone where
  "scenario4_payload =
     \<lparr>z_ID = 0, z_Name = [],
      z_RRSets =
        [\<lparr>rs_ID = 7, rs_ZoneID = 9, rs_Name = ''@'', rs_Type = ''a'', rs_TTL = 60,
           rs_Records = [(plain_record ''192.0.2.20'')\<lparr>rd_ID := 5, rd_RRSetID := 7\<rparr>]\<rparr>]\<rparr>"

text \<open>A payload with a name of another zone.\<close>

definition foreign_payload :: Zone where
  "foreign_payload =
     \<lparr>z_ID = 0, z_Name = [],
      z_RRSets =
        [\<lparr>rs_ID = 0, rs_ZoneID = 0, rs_Name = ''www'', rs_Type = ''A'', rs_TTL = 60,
           rs_Records = [plain_record ''192.0.2.30'']\<rparr>,
         \<lparr>rs_ID = 0, rs_ZoneID = 0, rs_Name = ''www.example.org.'', rs_Type = ''A'', rs_TTL = 60,
           rs_Records = [plain_record ''192.0.2.40'']\<rparr>]\<rparr>"

text \<open>The store after the import of the payload in mode \<open>replace\<close> and in mode \<open>upsert\<close>.\<close>

definition scenario4_replaced :: Store where
  "scenario4_replaced =
     \<lparr>zones = [scenario4_zone],
      rr_sets =
        [\<lparr>rs_ID = 3, rs_ZoneID = 1, rs_Name = ''example4.com.'', rs_Type = ''A'', rs_TTL = 60,
           rs_Records = []\<rparr>],
      r_data = [(plain_record ''192.0.2.20'')\<lparr>rd_ID := 3, rd_RRSetID := 3\<rparr>],
      templates = [], template_records = [],
      next_rrset_id = 4, next_rdata_id = 4,
      next_zone_id = 2, next_template_id = 1, next_template_record_id = 1\<rparr>"

definition scenario4_upserted :: Store where
  "scenario4_upserted =
     \<lparr>zones = [scenario4_zone],
      rr_sets =
        [\<lparr>rs_ID = 1, rs_ZoneID = 1, rs_Name = ''example4.com.'', rs_Type = ''A'', rs_TTL = 60,
           rs_Records = []\<rparr>,
         \<lparr>rs_ID = 2, rs_ZoneID = 1, rs_Name = ''example4.com.'', rs_Type = ''MX'', rs_TTL = 300,
           rs_Records = []\<rparr>],
      r_data =
        [(plain_record ''mail.example4.com.'')\<lparr>rd_ID := 2, rd_RRSetID := 2\<rparr>,
         (plain_record ''192.0.2.20'')\<lparr>rd_ID := 3, rd_RRSetID := 1\<rparr>],
      templates = [], template_records = [],
      next_rrset_id = 3, next_rdata_id = 4,
      next_zone_id = 2, next_template_id = 1, next_template_record_id = 1\<rparr>"

text \<open>The payload as the specification reads it: the apex name, the type A, 60 seconds.\<close>

definition scenario4_entries :: "((string \<times> string) \<times> (nat \<times> RData list)) list" where
  "scenario4_entries = [((''example4.com.'', ''A''), (60, [plain_record ''192.0.2.20'']))]"

section \<open>A zone with a date-based SOA serial\<close>

definition soa_zone :: Zone where
  "soa_zone = \<lparr>z_ID = 1, z_Name = ''example.com.'', z_RRSets = []\<rparr>"

definition soa_db :: Store where
  "soa_db =
     \<lparr>zones = [soa_zone],
      rr_sets =
        [\<lparr>rs_ID = 1, rs_ZoneID = 1, rs_Name = ''example.com.'', rs_Type = ''SOA'', rs_TTL = 3600,
           rs_Records = []\<rparr>,
         \<lparr>rs_ID = 2, rs_ZoneID = 1, rs_Name = ''www.example.com.'', rs_Type = ''A'', rs_TTL = 300,
           rs_Records = []\<rparr>],
      r_data =
        [(plain_record
            ''ns1.example.com. hostmaster.example.com. 2025010101 7200 3600 1209600 300'')
           \<lparr>rd_ID := 1, rd_RRSetID := 1\<rparr>,
         (plain_record ''192.0.2.10'')\<lparr>rd_ID := 2, rd_RRSetID := 2\<rparr>],
      templates = [], template_records = [],
      next_rrset_id = 3, next_rdata_id = 3,
      next_zone_id = 2, next_template_id = 1, next_template_record_id = 1\<rparr>"

text \<open>An import payload with one A RRSet and no SOA.\<close>

definition soa_payload :: Zone where
  "soa_payload =
     \<lparr>z_ID = 0, z_Name = [],
      z_RRSets =
        [\<lparr>rs_ID = 0, rs_ZoneID = 0, rs_Name = ''www'', rs_Type = ''A'', rs_TTL = 300,
           rs_Records = [plain_record ''192.0.2.20'']\<rparr>]\<rparr>"

definition soa_db_fields :: "string list" where
  "soa_db_fields =
     [''ns1.example.com.'', ''hostmaster.example.com.'', ''2025010101'', ''7200'', ''3600'',
      ''1209600'', ''300'']"

text \<open>The store after the payload has been imported in mode \<open>replace\<close>.\<close>

definition soa_db_replaced :: Store where
  "soa_db_replaced =
     \<lparr>zones = [soa_zone],
      rr_sets =
        [\<lparr>rs_ID = 3, rs_ZoneID = 1, rs_Name = ''www.example.com.'', rs_Type = ''A'', rs_TTL = 300,
           rs_Records = []\<rparr>],
      r_data = [(plain_record ''192.0.2.20'')\<lparr>rd_ID := 3, rd_RRSetID := 3\<rparr>],
      templates = [], template_records = [],
      next_rrset_id = 4, next_rdata_id = 4,
      next_zone_id = 2, next_template_id = 1, next_template_record_id = 1\<rparr>"

section \<open>A template with one record\<close>

definition template_db :: Store where
  "template_db =
     \<lparr>zones = [\<lparr>z_ID = 1, z_Name = ''example.com.'', z_RRSets = []\<rparr>],
      rr_sets = [], r_data = [],
      templates = [\<lparr>t_ID = 1, t_Name = ''web'', t_Description = [], t_Records = []\<rparr>],
      template_records =
        [\<lparr>tr_ID = 1, tr_TemplateID = 1, tr_Name = ''www.{domain}'', tr_Type = ''A'', tr_TTL = 300,
           tr_Data = ''192.0.2.1'', tr_Country = None, tr_Continent = None, tr_ASN = None,
           tr_Subnet = None\<rparr>],
      next_rrset_id = 1, next_rdata_id = 1,
      next_zone_id = 2, next_template_id = 2, next_template_record_id = 2\<rparr>"

text \<open>The store after the template has been applied to the zone once, and twice.\<close>

definition template_db_once :: Store where
  "template_db_once =
     template_db
       \<lparr>rr_sets := [\<lparr>rs_ID = 1, rs_ZoneID = 1, rs_Name = ''www.example.com.'', rs_Type = ''A'',
                       rs_TTL = 300, rs_Records = []\<rparr>],
        r_data := [(plain_record ''192.0.2.1'')\<lparr>rd_ID := 1, rd_RRSetID := 1\<rparr>],
        next_rrset_id := 2, next_rdata_id := 2\<rparr>"

definition template_db_twice :: Store where
  "template_db_twice =
     template_db_once
       \<lparr>r_data := [(plain_record ''192.0.2.1'')\<lparr>rd_ID := 1, rd_RRSetID := 1\<rparr>,
                   (plain_record ''192.0.2.1'')\<lparr>rd_ID := 2, rd_RRSetID := 1\<rparr>],
        next_rdata_id := 3\<rparr>"

section \<open>A DNS server for the scenarios\<close>

text \<open>
  Resource records are the lines that are handed to \<open>dns.NewRR\<close>; type 1 is A and
  type 5 is CNAME; there is no Geo database; no forwarder answers.
\<close>

definition test_lib :: "(nat \<times> nat \<times> nat \<times> nat, string) DnsLib" where
  "test_lib =
     \<lparr>TypeToString = (\<lambda>t. if t = 1 then ''A'' else if t = 5 then ''CNAME'' else []),
      NewRR = Some,
      geoLookup = (\<lambda>ip. \<lparr>g_Country = [], g_Continent = [], g_ASN = 0\<rparr>),
      prefixContains = scenario_contains,
      addrString = (\<lambda>ip. ''192.0.2.99''),
      Exchange = (\<lambda>server name qtype. None)\<rparr>"

text \<open>A forwarder that answers every question with the given return code.\<close>

definition forwarder_reply :: "nat \<Rightarrow> string Msg" where
  "forwarder_reply rcode =
     \<lparr>m_Id = 4711, m_Response = True, m_Authoritative = False, m_Rcode = rcode,
      m_Question = [], m_Answer = []\<rparr>"

definition forwarding_lib :: "nat \<Rightarrow> (nat \<times> nat \<times> nat \<times> nat, string) DnsLib" where
  "forwarding_lib rcode = test_lib\<lparr>Exchange := (\<lambda>server name qtype. Some (forwarder_reply rcode))\<rparr>"

definition minimal_config :: Config where
  "minimal_config =
     \<lparr>cfg_Listen = '':53'', cfg_Forwarder = [], cfg_EnableDNSSEC = False, cfg_APIToken = [],
      cfg_APITokenHash = [], cfg_RESTListen = '':8080'', cfg_TLSCertFile = [],
      cfg_TLSKeyFile = [], cfg_TLSReloadSec = 0, cfg_AllowedCIDRs = [], cfg_DefaultTTL = 0,
      cfg_SOA = \<lparr>soa_Primary = [], soa_Hostmaster = [], soa_AutoOnMissing = False\<rparr>,
      cfg_AutoSOAOnMissing = False,
      cfg_DB = \<lparr>db_Driver = ''sqlite'', db_DSN = '':memory:''\<rparr>,
      cfg_GeoIP = \<lparr>geo_Enabled = False, geo_MMDBPath = [], geo_ReloadSec = 0, geo_UseECS = False,
                  geo_DownloadURLs = [], geo_DownloadIntervalSec = 0\<rparr>,
      cfg_Log = \<lparr>log_DNSVerbose = False, log_SQLDebug = False\<rparr>,
      cfg_Performance = \<lparr>perf_CacheSize = 1024, perf_DNSTimeoutSec = 2,
                          perf_ForwarderTimeoutSec = 2\<rparr>,
      cfg_Admin = \<lparr>adm_Enabled = False, adm_Username = [], adm_PasswordHash = []\<rparr>,
      cfg_Replication = \<lparr>rep_Mode = [], rep_MasterURL = [], rep_SyncIntervalSec = 0,
                          rep_APIToken = []\<rparr>\<rparr>"

text \<open>The same configuration with a forwarder.\<close>

definition forwarding_config :: Config where
  "forwarding_config = minimal_config\<lparr>cfg_Forwarder := ''192.0.2.53''\<rparr>"

definition query :: "string \<Rightarrow> nat \<Rightarrow> (nat \<times> nat \<times> nat \<times> nat, string) Request" where
  "query name qtype =
     \<lparr>req_Msg = \<lparr>m_Id = 7, m_Response = False, m_Authoritative = False, m_Rcode = 0,
                  m_Question = [\<lparr>q_Name = name, q_Qtype = qtype\<rparr>], m_Answer = []\<rparr>,
      req_ECS = [], req_RemoteAddr = None\<rparr>"

text \<open>A server without a forwarder.\<close>

definition plain_server :: "string DnsServer" where
  "plain_server = NewServer minimal_config"

text \<open>
  A server with a forwarder, and a query for a name that no zone of the store matches.
\<close>

definition forwarding_server :: "string DnsServer" where
  "forwarding_server = NewServer forwarding_config"

definition nx_question :: Question where
  "nx_question = \<lparr>q_Name = ''NX.Unknown.Test.'', q_Qtype = 1\<rparr>"

definition nx_request :: "(nat \<times> nat \<times> nat \<times> nat, string) Request" where
  "nx_request = query ''NX.Unknown.Test.'' 1"

text \<open>The local NXDOMAIN reply to such a query.\<close>

definition nxdomain_reply :: "string \<Rightarrow> nat \<Rightarrow> string Msg" where
  "nxdomain_reply name qtype =
     \<lparr>m_Id = 7, m_Response = True, m_Authoritative = True, m_Rcode = 3,
      m_Question = [\<lparr>q_Name = name, q_Qtype = qtype\<rparr>], m_Answer = []\<rparr>"

text \<open>A store with the zone \<open>example.com.\<close> and nothing in it, and the same store after
  a name that only ends like the zone has come in with a replication import.\<close>

definition example_db :: Store where
  "example_db =
     \<lparr>zones = [\<lparr>z_ID = 1, z_Name = ''example.com.'', z_RRSets = []\<rparr>],
      rr_sets = [], r_data = [], templates = [], template_records = [],
      next_rrset_id = 1, next_rdata_id = 1,
      next_zone_id = 2, next_template_id = 1, next_template_record_id = 1\<rparr>"

definition example_db_synced :: Store where
  "example_db_synced =
     example_db
       \<lparr>rr_sets := [\<lparr>rs_ID = 1, rs_ZoneID = 1, rs_Name = ''notexample.com.'', rs_Type = ''A'',
                       rs_TTL = 300, rs_Records = []\<rparr>],
        r_data := [(plain_record ''192.0.2.66'')\<lparr>rd_ID := 1, rd_RRSetID := 1\<rparr>],
        next_rrset_id := 2, next_rdata_id := 2\<rparr>"

text \<open>
  A configuration file that sets \<open>performance.cache_size\<close> to zero, what
  \<open>yaml.Unmarshal\<close> makes of it, an environment in which that file is the only one, and
  the configuration with the defaults filled in.
\<close>

definition zero_cache_yaml :: string where
  "zero_cache_yaml = ''{db: {driver: sqlite, dsn: namedot.db}, performance: {cache_size: 0}}''"

definition zero_cache_parsed :: Config where
  "zero_cache_parsed =
     \<lparr>cfg_Listen = [], cfg_Forwarder = [], cfg_EnableDNSSEC = False, cfg_APIToken = [],
      cfg_APITokenHash = [], cfg_RESTListen = [], cfg_TLSCertFile = [],
      cfg_TLSKeyFile = [], cfg_TLSReloadSec = 0, cfg_AllowedCIDRs = [], cfg_DefaultTTL = 0,
      cfg_SOA = \<lparr>soa_Primary = [], soa_Hostmaster = [], soa_AutoOnMissing = False\<rparr>,
      cfg_AutoSOAOnMissing = False,
      cfg_DB = \<lparr>db_Driver = ''sqlite'', db_DSN = ''namedot.db''\<rparr>,
      cfg_GeoIP = \<lparr>geo_Enabled = False, geo_MMDBPath = [], geo_ReloadSec = 0, geo_UseECS = False,
                  geo_DownloadURLs = [], geo_DownloadIntervalSec = 0\<rparr>,
      cfg_Log = \<lparr>log_DNSVerbose = False, log_SQLDebug = False\<rparr>,
      cfg_Performance = \<lparr>perf_CacheSize = 0, perf_DNSTimeoutSec = 0,
                          perf_ForwarderTimeoutSec = 0\<rparr>,
      cfg_Admin = \<lparr>adm_Enabled = False, adm_Username = [], adm_PasswordHash = []\<rparr>,
      cfg_Replication = \<lparr>rep_Mode = [], rep_MasterURL = [], rep_SyncIntervalSec = 0,
                          rep_APIToken = []\<rparr>\<rparr>"

definition zero_cache_env :: Env where
  "zero_cache_env =
     \<lparr>ReadFile = (\<lambda>path. if path = ''config.yaml'' then Some zero_cache_yaml else None),
      Unmarshal = (\<lambda>b. if b = zero_cache_yaml then Some zero_cache_parsed else None),
      SplitHostPort = (\<lambda>addr. if addr = '':53'' then Some ([], ''53'')
                              else if addr = '':8080'' then Some ([], ''8080'') else None),
      Atoi = ParseInt,
      ParseIP = (\<lambda>host. False),
      Stat = (\<lambda>path. False),
      MkdirAll = (\<lambda>path. False),
      ParseCIDR = (\<lambda>cidr. False)\<rparr>"

definition zero_cache_loaded :: Config where
  "zero_cache_loaded =
     zero_cache_parsed
       \<lparr>cfg_Listen := '':53'', cfg_RESTListen := '':8080'',
        cfg_Performance := \<lparr>perf_CacheSize = 1024, perf_DNSTimeoutSec = 2,
                             perf_ForwarderTimeoutSec = 2\<rparr>\<rparr>"

definition zero_cache_server :: "string DnsServer" where
  "zero_cache_server = NewServer zero_cache_loaded"

text \<open>The reply with the record of \<open>example_db_synced\<close>.\<close>

definition synced_reply :: "string Msg" where
  "synced_reply =
     \<lparr>m_Id = 7, m_Response = True, m_Authoritative = True, m_Rcode = 0,
      m_Question = [\<lparr>q_Name = ''notexample.com.'', q_Qtype = 1\<rparr>],
      m_Answer = [''notexample.com. 300 A 192.0.2.66'']\<rparr>"

section \<open>A REST server beside a DNS server\<close>

text \<open>
  The DNS server has answered a query at second 1000, so its zone cache holds the zones
  of \<open>example_db\<close>; the REST server works on the same store.
\<close>

definition warm_dns :: "string DnsServer" where
  "warm_dns = snd (lookup_zones plain_server example_db 1000)"

definition rest_server :: "string RestServer" where
  "rest_server = \<lparr>rest_cfg = minimal_config, rest_db = example_db, rest_dnsServer = Some warm_dns\<rparr>"

text \<open>The store after the zone \<open>example.org.\<close> has been created.\<close>

definition example_db_two_zones :: Store where
  "example_db_two_zones =
     example_db
       \<lparr>zones := [\<lparr>z_ID = 1, z_Name = ''example.com.'', z_RRSets = []\<rparr>,
                  \<lparr>z_ID = 2, z_Name = ''example.org.'', z_RRSets = []\<rparr>],
        next_zone_id := 3\<rparr>"

section \<open>A REST server on the zone with the date-based serial\<close>

text \<open>The configuration creates a missing SOA and overrides no name.\<close>

definition soa_config :: Config where
  "soa_config =
     minimal_config\<lparr>cfg_SOA := \<lparr>soa_Primary = [], soa_Hostmaster = [], soa_AutoOnMissing = True\<rparr>\<rparr>"

definition soa_rest :: "string RestServer" where
  "soa_rest = \<lparr>rest_cfg = soa_config, rest_db = soa_db, rest_dnsServer = Some plain_server\<rparr>"

text \<open>
  A request for a new A RRSet, and libraries for which the body \<open>payload\<close> decodes to
  \<open>soa_payload\<close> and no BIND text parses.
\<close>

definition mail_req :: rrsetReq where
  "mail_req = \<lparr>rq_Name = ''mail'', rq_Type = ''a'', rq_TTL = 300,
                rq_Records = [plain_record ''192.0.2.25'']\<rparr>"

definition soa_rest_lib :: RestLib where
  "soa_rest_lib =
     \<lparr>DecodeZone = (\<lambda>body. if body = ''payload'' then Some soa_payload else None),
      ImportBIND = (\<lambda>db zone body mode defaultTTL. (Some ParseError, db))\<rparr>"

text \<open>A REST server on the zone after it has lost its SOA.\<close>

definition nosoa_rest :: "string RestServer" where
  "nosoa_rest =
     \<lparr>rest_cfg = soa_config, rest_db = soa_db_replaced, rest_dnsServer = Some plain_server\<rparr>"

section \<open>Facts about the string functions\<close>

lemma lower_char_idem: "lower_char (lower_char c) = lower_char c"
  by (simp add: lower_char_def is_upper_def)

lemma not_upper_lower_char: "\<not> is_upper (lower_char c)"
  by (simp add: lower_char_def is_upper_def)

lemma ToLower_idem: "ToLower (ToLower s) = ToLower s"
  by (simp add: ToLower_def lower_char_idem)

lemma ToLower_append: "ToLower (s @ t) = ToLower s @ ToLower t"
  by (simp add: ToLower_def)

lemma ToLower_take: "ToLower (take k s) = take k (ToLower s)"
  by (simp add: ToLower_def take_map)

lemma ToLower_Nil_iff: "ToLower s = [] \<longleftrightarrow> s = []"
  by (simp add: ToLower_def)

lemma lower_char_fixed_iff: "lower_char c = c \<longleftrightarrow> \<not> is_upper c"
  using not_upper_lower_char [of c] by (auto simp: lower_char_def)

lemma ToLower_fixed_iff: "ToLower s = s \<longleftrightarrow> (\<forall>c \<in> set s. \<not> is_upper c)"
  by (induction s) (simp_all add: ToLower_def lower_char_fixed_iff)

lemma lowered_take: "ToLower s = s \<Longrightarrow> ToLower (take k s) = take k s"
  by (simp add: ToLower_take)

lemma lowered_TrimSuffix: "ToLower s = s \<Longrightarrow> ToLower (TrimSuffix s suf) = TrimSuffix s suf"
  by (simp add: TrimSuffix_def lowered_take)

lemma is_space_lower_char: "is_space (lower_char c) = is_space c"
proof (cases "is_upper c")
  case False
  then show ?thesis by (simp add: lower_char_def)
next
  case True
  then have u: "65 \<le> (of_char c :: nat)" "(of_char c :: nat) \<le> 90"
    by (simp_all add: is_upper_def)
  have "\<not> is_space c"
    using u by (auto simp: is_space_def)
  moreover have "\<not> is_space (lower_char c)"
  proof
    assume "is_space (lower_char c)"
    then have "(of_char (lower_char c) :: nat) \<in> {9, 10, 11, 12, 13, 32}"
      by (auto simp: is_space_def)
    moreover have "(of_char (lower_char c) :: nat) = of_char c + 32"
      using True u by (simp add: lower_char_def)
    ultimately show False using u by auto
  qed
  ultimately show ?thesis by simp
qed

lemma dropWhile_space_ToLower:
  "dropWhile is_space (ToLower s) = ToLower (dropWhile is_space s)"
  by (induction s) (simp_all add: ToLower_def is_space_lower_char)

lemma TrimSpace_ToLower: "TrimSpace (ToLower s) = ToLower (TrimSpace s)"
proof -
  have r: "rev (ToLower t) = ToLower (rev t)" for t
    by (simp add: ToLower_def rev_map)
  show ?thesis
    by (simp add: TrimSpace_def dropWhile_space_ToLower r)
qed

lemma dropWhile_no_space: "s = [] \<or> \<not> is_space (hd s) \<Longrightarrow> dropWhile is_space s = s"
  by (cases s) auto

lemma TrimSpace_fixed:
  assumes "s = [] \<or> (\<not> is_space (hd s) \<and> \<not> is_space (last s))"
  shows "TrimSpace s = s"
proof (cases "s = []")
  case True
  then show ?thesis by (simp add: TrimSpace_def)
next
  case False
  with assms have h: "\<not> is_space (hd s)" and l: "\<not> is_space (last s)" by auto
  have "dropWhile is_space s = s"
    using h by (simp add: dropWhile_no_space)
  moreover have "dropWhile is_space (rev s) = rev s"
    using l False by (intro dropWhile_no_space) (simp add: hd_rev)
  ultimately show ?thesis by (simp add: TrimSpace_def)
qed

lemma TrimSpace_ends:
  "TrimSpace s = [] \<or> (\<not> is_space (hd (TrimSpace s)) \<and> \<not> is_space (last (TrimSpace s)))"
proof (cases "TrimSpace s = []")
  case True
  then show ?thesis by simp
next
  case False
  let ?a = "dropWhile is_space s"
  let ?b = "dropWhile is_space (rev ?a)"
  have t: "TrimSpace s = rev ?b" by (simp add: TrimSpace_def)
  have b: "?b \<noteq> []" using False t by auto
  then have a: "?a \<noteq> []" by (cases "dropWhile is_space s") simp_all
  have hb: "\<not> is_space (hd ?b)" using b by (rule hd_dropWhile)
  have ha: "\<not> is_space (hd ?a)" using a by (rule hd_dropWhile)
  have "last (TrimSpace s) = hd ?b" using b t by (simp add: last_rev)
  moreover have "hd (TrimSpace s) = hd ?a"
  proof -
    have "rev ?a \<noteq> []" using a by simp
    moreover have "\<not> is_space (last (rev ?a))" using a ha by (simp add: last_rev)
    ultimately have "last ?b = last (rev ?a)"
      by (metis append_Nil2 b dropWhile_append1 last_appendR last_in_set
          takeWhile_dropWhile_id)
    then have "last ?b = hd ?a" using a by (simp add: last_rev)
    then show ?thesis using b t by (simp add: hd_rev)
  qed
  ultimately show ?thesis using ha hb by simp
qed

lemma TrimSpace_idem: "TrimSpace (TrimSpace s) = TrimSpace s"
  using TrimSpace_ends [of s] by (rule TrimSpace_fixed)

lemma HasSuffix_dot_iff: "HasSuffix s ''.'' \<longleftrightarrow> s \<noteq> [] \<and> last s = CHR ''.''"
proof
  assume "HasSuffix s ''.''"
  then obtain p where "s = p @ ''.''" by (auto simp: HasSuffix_def suffix_def)
  then show "s \<noteq> [] \<and> last s = CHR ''.''" by simp
next
  assume "s \<noteq> [] \<and> last s = CHR ''.''"
  then have "s = butlast s @ ''.''" by (metis append_butlast_last_id)
  then show "HasSuffix s ''.''" by (metis HasSuffix_def suffixI)
qed

lemma not_space_dot: "\<not> is_space CHR ''.''"
  by (simp add: is_space_def)


section \<open>Facts about fields and decimal numbers\<close>


lemma fields_from_no_space:
  "list_all (\<lambda>c. \<not> is_space c) p \<Longrightarrow> fields_from w (p @ rest) = fields_from (w @ p) rest"
  by (induction p arbitrary: w) simp_all

lemma Fields_one_field_Cons:
  assumes "one_field p" and "is_space c"
  shows "Fields (p @ c # rest) = p # Fields rest"
  using assms fields_from_no_space [of p "[]" "c # rest"]
  by (simp add: Fields_def one_field_def)

lemma Fields_one_field: "one_field p \<Longrightarrow> Fields p = [p]"
  using fields_from_no_space [of p "[]" "[]"] by (simp add: Fields_def one_field_def)

lemma is_space_blank: "is_space CHR '' ''"
  by (simp add: is_space_def)

lemma Fields_Join:
  "list_all one_field ps \<Longrightarrow> Fields (Join ps '' '') = ps"
proof (induction ps rule: induct_list012)
  case 1
  then show ?case by (simp add: Fields_def)
next
  case (2 p)
  then show ?case by (simp add: Fields_one_field)
next
  case (3 p q ps)
  then show ?case
    using Fields_one_field_Cons [of p "CHR '' ''" "Join (q # ps) '' ''"]
    by (simp add: is_space_blank)
qed

lemma fields_from_one_field:
  "list_all (\<lambda>c. \<not> is_space c) w \<Longrightarrow> list_all one_field (fields_from w s)"
  by (induction s arbitrary: w) (simp_all add: one_field_def)

lemma Fields_all_one_field: "list_all one_field (Fields s)"
  by (simp add: Fields_def fields_from_one_field)

lemma list_all_update:
  "list_all P xs \<Longrightarrow> P v \<Longrightarrow> list_all P (xs[i := v])"
  by (auto simp: list_all_iff dest: set_update_subset_insert [THEN subsetD])

lemma digit_char_props:
  assumes "0 \<le> d" "d \<le> 9"
  shows "is_digit (digit_char d)" "digit_val (digit_char d) = d" "\<not> is_space (digit_char d)"
proof -
  have n: "nat d \<le> 9" using assms by simp
  have o: "(of_char (digit_char d) :: nat) = 48 + nat d"
    using n by (simp add: digit_char_def)
  show "is_digit (digit_char d)" using n by (simp add: is_digit_def o)
  show "digit_val (digit_char d) = d" using assms by (simp add: digit_val_def o)
  have "(of_char c :: nat) \<in> {9, 10, 11, 12, 13, 32}" if "is_space c" for c
    using that by (auto simp: is_space_def)
  then show "\<not> is_space (digit_char d)" using n o by fastforce
qed

lemma digits_val_snoc: "digits_val (ds @ [c]) = 10 * digits_val ds + digit_val c"
  by (simp add: digits_val_def)

lemma format_digits_props:
  "0 \<le> n \<Longrightarrow> format_digits n \<noteq> [] \<and> list_all is_digit (format_digits n)
     \<and> list_all (\<lambda>c. \<not> is_space c) (format_digits n)
     \<and> digits_val (format_digits n) = n"
proof (induction n rule: format_digits.induct)
  case (1 n)
  show ?case
  proof (cases "n < 10")
    case True
    then show ?thesis
      using "1.prems" digit_char_props [of n]
      by (simp add: format_digits.simps [of n] digits_val_def)
  next
    case False
    then have ih: "format_digits (n div 10) \<noteq> [] \<and> list_all is_digit (format_digits (n div 10))
     \<and> list_all (\<lambda>c. \<not> is_space c) (format_digits (n div 10))
     \<and> digits_val (format_digits (n div 10)) = n div 10"
      using "1.IH" "1.prems" by simp
    have m: "0 \<le> n mod 10" "n mod 10 \<le> 9" by simp_all
    show ?thesis
      using False ih digit_char_props [OF m]
      by (simp add: format_digits.simps [of n] digits_val_snoc)
  qed
qed

lemma is_digit_not_sign: "is_digit c \<Longrightarrow> c \<noteq> CHR ''+'' \<and> c \<noteq> CHR ''-''"
  by (auto simp: is_digit_def)

lemma ParseInt_FormatInt:
  assumes "- (2 ^ 63) \<le> n" "n < 2 ^ 63"
  shows "ParseInt (FormatInt n) = Some n"
proof (cases "n < 0")
  case False
  then have p: "format_digits n \<noteq> []" "list_all is_digit (format_digits n)"
      "digits_val (format_digits n) = n"
    using format_digits_props [of n] by simp_all
  then obtain c cs where s: "format_digits n = c # cs" by (cases "format_digits n") auto
  then have "is_digit c" using p(2) by simp
  then have c: "c \<noteq> CHR ''+''" "c \<noteq> CHR ''-''" using is_digit_not_sign by blast+
  show ?thesis
    using False p assms c unfolding ParseInt_def FormatInt_def s by (simp add: Let_def)
next
  case True
  then have p: "format_digits (- n) \<noteq> []" "list_all is_digit (format_digits (- n))"
      "digits_val (format_digits (- n)) = - n"
    using format_digits_props [of "- n"] by simp_all
  show ?thesis
    using True p assms unfolding ParseInt_def FormatInt_def by (simp add: Let_def)
qed

lemma one_field_FormatInt: "one_field (FormatInt n)"
proof (cases "n < 0")
  case False
  then show ?thesis using format_digits_props [of n] by (simp add: one_field_def FormatInt_def)
next
  case True
  then show ?thesis
    using format_digits_props [of "- n"] by (simp add: one_field_def FormatInt_def is_space_def)
qed

lemma one_field_bumped_serial: "one_field (bumped_serial s now)"
  by (simp add: bumped_serial_def one_field_FormatInt split: option.splits)


section \<open>Name normalization: shape of the results\<close>

lemma ToLower_Nil [simp]: "ToLower [] = []"
  by (simp add: ToLower_def)

lemma ToLower_dot_Cons [simp]: "ToLower (CHR ''.'' # q) = CHR ''.'' # ToLower q"
  by (simp add: ToLower_def lower_char_def is_upper_def)

lemma norm_trimmed: "TrimSpace (ToLower (TrimSpace x)) = ToLower (TrimSpace x)"
  by (simp add: TrimSpace_ToLower TrimSpace_idem)

lemma norm_lowered: "ToLower (ToLower (TrimSpace x)) = ToLower (TrimSpace x)"
  by (rule ToLower_idem)

lemma trimmed_hd: "TrimSpace s = s \<Longrightarrow> s = [] \<or> \<not> is_space (hd s)"
  using TrimSpace_ends [of s] by auto

lemma take_hd_no_space: "s = [] \<or> \<not> is_space (hd s) \<Longrightarrow> take k s = [] \<or> \<not> is_space (hd (take k s))"
  by (cases s; cases k) auto

lemma TrimSuffix_hd_no_space:
  "s = [] \<or> \<not> is_space (hd s) \<Longrightarrow> TrimSuffix s suf = [] \<or> \<not> is_space (hd (TrimSuffix s suf))"
  unfolding TrimSuffix_def using take_hd_no_space [of s] by auto

lemma dotted_trimmed:
  assumes "p = [] \<or> \<not> is_space (hd p)" and "q = [] \<or> last q = CHR ''.''"
  shows "TrimSpace (p @ ''.'' @ q) = p @ ''.'' @ q"
proof (rule TrimSpace_fixed, rule disjI2, rule conjI)
  show "\<not> is_space (hd (p @ ''.'' @ q))"
    using assms(1) by (cases p) (simp_all add: not_space_dot)
  show "\<not> is_space (last (p @ ''.'' @ q))"
    using assms(2) by (cases "q = []") (simp_all add: not_space_dot)
qed

lemma ToLower_dot: "ToLower ''.'' = ''.''"
  by (simp add: ToLower_def lower_char_def is_upper_def)

lemma dotted_lowered: "ToLower p = p \<Longrightarrow> ToLower q = q \<Longrightarrow> ToLower (p @ ''.'' @ q) = p @ ''.'' @ q"
  by (simp add: ToLower_append)

lemma dotted_HasSuffix: "q = [] \<or> last q = CHR ''.'' \<Longrightarrow> HasSuffix (p @ ''.'' @ q) ''.''"
  by (cases "q = []") (simp_all add: HasSuffix_dot_iff)

lemma dottedI: "y = p @ ''.'' @ q \<Longrightarrow> p = [] \<or> \<not> is_space (hd p) \<Longrightarrow> q = [] \<or> last q = CHR ''.''
   \<Longrightarrow> ToLower p = p \<Longrightarrow> ToLower q = q \<Longrightarrow> dotted y"
  unfolding dotted_def by blast

lemma dotted_props:
  assumes "dotted y"
  shows "TrimSpace y = y" "ToLower y = y" "HasSuffix y ''.''"
proof -
  from assms obtain p q where y: "y = p @ ''.'' @ q" and p: "p = [] \<or> \<not> is_space (hd p)"
    and q: "q = [] \<or> last q = CHR ''.''" and l: "ToLower p = p" "ToLower q = q"
    unfolding dotted_def by blast
  show "TrimSpace y = y" unfolding y using p q by (rule dotted_trimmed)
  show "ToLower y = y" unfolding y using l by (rule dotted_lowered)
  show "HasSuffix y ''.''" unfolding y using q by (rule dotted_HasSuffix)
qed

lemma dotted_ends_dot:
  assumes a: "s = [] \<or> \<not> is_space (hd s)" and l: "ToLower s = s" and d: "HasSuffix s ''.''"
  shows "dotted s"
proof -
  from d have ne: "s \<noteq> []" and "last s = CHR ''.''" by (simp_all add: HasSuffix_dot_iff)
  then have s: "s = butlast s @ ''.'' @ []" by (metis append_Nil2 append_butlast_last_id)
  have "butlast s = take (length s - 1) s" by (simp add: butlast_conv_take)
  then have "butlast s = [] \<or> \<not> is_space (hd (butlast s))" "ToLower (butlast s) = butlast s"
    using take_hd_no_space [OF a, of "length s - 1"] lowered_take [OF l, of "length s - 1"] by auto
  then show ?thesis using s by (intro dottedI [of s "butlast s" "[]"]) simp_all
qed

lemma NormalizeRRSetName_dotted:
  assumes "NormalizeRRSetName x z = Inr y"
  shows "dotted y \<and> in_zone y z"
proof -
  define n where "n = ToLower (TrimSpace x)"
  define zone where "zone = TrimSuffix (ToLower (TrimSpace z)) ''.''"
  define n' where "n' = (if HasSuffix n ''.@'' then TrimSuffix n ''.@'' else n)"
  have nh: "n = [] \<or> \<not> is_space (hd n)" and nl: "ToLower n = n"
    unfolding n_def using trimmed_hd [OF norm_trimmed] norm_lowered by auto
  have zh: "zone = [] \<or> \<not> is_space (hd zone)" and zl: "ToLower zone = zone"
    unfolding zone_def using TrimSuffix_hd_no_space [OF trimmed_hd [OF norm_trimmed]]
      lowered_TrimSuffix [OF norm_lowered] by auto
  have n'h: "n' = [] \<or> \<not> is_space (hd n')" and n'l: "ToLower n' = n'"
    unfolding n'_def using TrimSuffix_hd_no_space [OF nh] lowered_TrimSuffix [OF nl] nh nl by auto
  have zd: "dotted (zone @ ''.'')"
    using zh zl by (intro dottedI [of _ zone "[]"]) simp_all
  have zq: "ToLower (zone @ ''.'') = zone @ ''.''"
    using zl by (simp add: ToLower_append)
  have zF: "zoneFQDN_of z = zone @ ''.''" by (simp add: zoneFQDN_of_def zone_def)
  show ?thesis
  proof (cases "n = [] \<or> n = ''@''")
    case True
    then have "y = zone @ ''.''"
      using assms by (auto simp: NormalizeRRSetName_def Let_def n_def zone_def)
    then show ?thesis using zd zF by (simp add: in_zone_def)
  next
    case False
    define result where "result = (if HasSuffix n' ''.'' then n'
                  else if n' = zone then zone @ ''.''
                  else if HasSuffix n' (''.'' @ zone) then n' @ ''.''
                  else n' @ ''.'' @ zone @ ''.'')"
    have "NormalizeRRSetName x z = (if result \<noteq> zone @ ''.'' \<and> \<not> HasSuffix result (''.'' @ zone @ ''.'')
              then Inl (NameNotInZone x z) else Inr result)"
      using False unfolding NormalizeRRSetName_def Let_def n_def [symmetric] zone_def [symmetric]
        n'_def [symmetric] result_def by simp
    with assms have y: "y = result" and v: "in_zone y z"
      by (auto simp: in_zone_def zF split: if_splits)
    have "dotted result"
    proof -
      have "HasSuffix n' ''.'' \<or> result = zone @ ''.'' \<or> result = n' @ ''.'' @ []
          \<or> result = n' @ ''.'' @ (zone @ ''.'')"
        unfolding result_def by simp
      then consider (a) "HasSuffix n' ''.''" | (b) "result = zone @ ''.''" | (c) "result = n' @ ''.'' @ []"
        | (d) "result = n' @ ''.'' @ (zone @ ''.'')"
        by blast
      then show ?thesis
      proof cases
        case a
        then have "result = n'" by (simp add: result_def)
        then show ?thesis using dotted_ends_dot [OF n'h n'l a] by simp
      next
        case b
        then show ?thesis using zd by simp
      next
        case c
        then show ?thesis using n'h n'l by (intro dottedI [of _ n' "[]"]) simp_all
      next
        case d
        then show ?thesis using n'h n'l zq by (intro dottedI [of _ n' "zone @ ''.''"]) simp_all
      qed
    qed
    then show ?thesis using y v by simp
  qed
qed

lemma NormalizeRRSetName_fixed:
  assumes "dotted y" "in_zone y z"
  shows "NormalizeRRSetName y z = Inr y"
proof -
  have t: "ToLower (TrimSpace y) = y" using dotted_props [OF assms(1)] by simp
  have d: "HasSuffix y ''.''" using dotted_props [OF assms(1)] by simp
  then have ne: "y \<noteq> []" "last y = CHR ''.''" by (simp_all add: HasSuffix_dot_iff)
  have "y \<noteq> ''@''" using ne by auto
  moreover have "\<not> HasSuffix y ''.@''"
  proof
    assume "HasSuffix y ''.@''"
    then obtain p where "y = p @ ''.@''" by (auto simp: HasSuffix_def suffix_def)
    then show False using ne by simp
  qed
  ultimately show ?thesis
    using assms(2) ne d unfolding NormalizeRRSetName_def Let_def t in_zone_def zoneFQDN_of_def
    by simp
qed

lemma NormalizeFQDN_fixed:
  "TrimSpace y = y \<Longrightarrow> ToLower y = y \<Longrightarrow> y = [] \<or> HasSuffix y ''.'' \<Longrightarrow> NormalizeFQDN y = y"
  by (auto simp: NormalizeFQDN_def Let_def)

lemma NormalizeFQDN_shape:
  "TrimSpace (NormalizeFQDN x) = NormalizeFQDN x \<and> ToLower (NormalizeFQDN x) = NormalizeFQDN x
   \<and> (NormalizeFQDN x = [] \<or> HasSuffix (NormalizeFQDN x) ''.'')"
proof -
  define n where "n = ToLower (TrimSpace x)"
  have nt: "TrimSpace n = n" and nl: "ToLower n = n"
    unfolding n_def using norm_trimmed norm_lowered by auto
  show ?thesis
  proof (cases "n \<noteq> [] \<and> \<not> HasSuffix n ''.''")
    case True
    then have y: "NormalizeFQDN x = n @ ''.'' @ []" by (simp add: NormalizeFQDN_def n_def)
    have "dotted (n @ ''.'' @ [])"
      using trimmed_hd [OF nt] nl by (intro dottedI [of _ n "[]"]) simp_all
    from dotted_props [OF this] show ?thesis unfolding y by simp
  next
    case False
    then have y: "NormalizeFQDN x = n" by (auto simp add: NormalizeFQDN_def n_def Let_def)
    show ?thesis unfolding y using nt nl False by auto
  qed
qed

lemma fqdn_dotted: "ToLower (fqdn x z) = fqdn x z \<and> HasSuffix (fqdn x z) ''.''"
proof -
  define n0 where "n0 = ToLower x"
  define n1 where "n1 = (if HasSuffix n0 ''.@'' then TrimSuffix n0 ''.@'' else n0)"
  define n where "n = TrimSuffix n1 ''.''"
  define zz where "zz = TrimSuffix (ToLower z) ''.''"
  have "ToLower n0 = n0" by (simp add: n0_def ToLower_idem)
  then have "ToLower n1 = n1" by (simp add: n1_def lowered_TrimSuffix)
  then have nl: "ToLower n = n" by (simp add: n_def lowered_TrimSuffix)
  have zl: "ToLower zz = zz" by (simp add: zz_def lowered_TrimSuffix ToLower_idem)
  have f: "fqdn x z = (if n = [] \<or> n = ''@'' then zz @ ''.'' else n @ ''.'' @ zz @ ''.'')"
    unfolding fqdn_def Let_def n0_def [symmetric] n1_def [symmetric] n_def [symmetric]
      zz_def [symmetric] by simp
  show ?thesis
    unfolding f using nl zl by (simp add: ToLower_append HasSuffix_dot_iff)
qed

text \<open>
  C4 (as amended). \<open>NormalizeFQDN\<close> is idempotent, and \<open>NormalizeRRSetName\<close> with a fixed
  zone returns every name it accepts unchanged when applied to it again; the results of
  both are lowercase and end with a dot whenever they are non-empty. The REST handlers'
  \<open>fqdn\<close> returns a lowercase name that ends with a dot.
\<close>

theorem C4_normalization_idempotent:
  "NormalizeFQDN (NormalizeFQDN x) = NormalizeFQDN x
   \<and> ToLower (NormalizeFQDN x) = NormalizeFQDN x
   \<and> (NormalizeFQDN x \<noteq> [] \<longrightarrow> HasSuffix (NormalizeFQDN x) ''.'')
   \<and> (\<forall>y. NormalizeRRSetName x z = Inr y \<longrightarrow>
          NormalizeRRSetName y z = Inr y \<and> ToLower y = y \<and> HasSuffix y ''.'')
   \<and> ToLower (fqdn x z) = fqdn x z \<and> HasSuffix (fqdn x z) ''.''"
proof -
  have a: "NormalizeFQDN (NormalizeFQDN x) = NormalizeFQDN x"
    using NormalizeFQDN_shape [of x] by (intro NormalizeFQDN_fixed) simp_all
  have b: "\<forall>y. NormalizeRRSetName x z = Inr y \<longrightarrow>
          NormalizeRRSetName y z = Inr y \<and> ToLower y = y \<and> HasSuffix y ''.''"
  proof (intro allI impI)
    fix y assume "NormalizeRRSetName x z = Inr y"
    then have d: "dotted y" and i: "in_zone y z"
      using NormalizeRRSetName_dotted by blast+
    show "NormalizeRRSetName y z = Inr y \<and> ToLower y = y \<and> HasSuffix y ''.''"
      using NormalizeRRSetName_fixed [OF d i] dotted_props [OF d] by simp
  qed
  have c: "NormalizeFQDN x \<noteq> [] \<longrightarrow> HasSuffix (NormalizeFQDN x) ''.''"
    using NormalizeFQDN_shape [of x] by blast
  have d: "ToLower (NormalizeFQDN x) = NormalizeFQDN x"
    using NormalizeFQDN_shape [of x] by blast
  from a d c b fqdn_dotted [of x z] show ?thesis
    by (intro conjI) (erule conjunct1 conjunct2 | assumption)+
qed

theorem C4_normalization_idempotent_witness:
  "NormalizeFQDN '' WWW.Example.COM '' = ''www.example.com.''
   \<and> NormalizeFQDN ''www.example.com.'' = ''www.example.com.''
   \<and> NormalizeRRSetName '' WWW '' ''Example.COM'' = Inr ''www.example.com.''
   \<and> NormalizeRRSetName ''www.example.com.'' ''Example.COM'' = Inr ''www.example.com.''
   \<and> HasSuffix (fqdn ''WWW'' ''Example.COM'') ''.''"
proof -
  have f: "NormalizeFQDN '' WWW.Example.COM '' = ''www.example.com.''"
    by code_simp
  have h: "NormalizeRRSetName '' WWW '' ''Example.COM'' = Inr ''www.example.com.''"
    by code_simp
  note t = C4_normalization_idempotent [of "'' WWW.Example.COM ''" "''Example.COM''"]
  note u = C4_normalization_idempotent [of "'' WWW ''" "''Example.COM''"]
  have g: "NormalizeFQDN ''www.example.com.'' = ''www.example.com.''"
    using t [THEN conjunct1] unfolding f .
  have i: "NormalizeRRSetName ''www.example.com.'' ''Example.COM'' = Inr ''www.example.com.''"
    using u [THEN conjunct2, THEN conjunct2, THEN conjunct2, THEN conjunct1] h by blast
  have j: "HasSuffix (fqdn ''WWW'' ''Example.COM'') ''.''"
    using C4_normalization_idempotent [of "''WWW''" "''Example.COM''"] by blast
  from f g h i j show ?thesis by (intro conjI)
qed

text \<open>
  C4 as stated fails for \<open>fqdn\<close>: it appends the zone to every name, also to one that
  it has produced itself.
\<close>

theorem C4_fqdn_not_idempotent:
  "fqdn (fqdn ''www'' ''example.com'') ''example.com'' \<noteq> fqdn ''www'' ''example.com''"
  by code_simp

section \<open>The Geo selector refines its specification\<close>

lemma EqualFold_nonempty: "EqualFold c d \<Longrightarrow> d \<noteq> [] \<Longrightarrow> c \<noteq> []"
  by (auto simp: EqualFold_def ToLower_def)

lemma first_rule_cases:
  "first_rule contains ip g r =
     (if matches contains ip g BySubnet r then Some BySubnet
      else if matches contains ip g ByASN r then Some ByASN
      else if matches contains ip g ByCountry r then Some ByCountry
      else if matches contains ip g ByContinent r then Some ByContinent
      else if matches contains ip g ByGeneric r then Some ByGeneric
      else None)"
  by (simp add: first_rule_def priority_def)

lemma geo_step_rule:
  "geo_step contains ip g b r =
     (case first_rule contains ip g r of
        None \<Rightarrow> b
      | Some BySubnet \<Rightarrow> b\<lparr>subnetMatch := subnetMatch b @ [r]\<rparr>
      | Some ByASN \<Rightarrow> b\<lparr>asnMatch := asnMatch b @ [r]\<rparr>
      | Some ByCountry \<Rightarrow> b\<lparr>countryMatch := countryMatch b @ [r]\<rparr>
      | Some ByContinent \<Rightarrow> b\<lparr>continentMatch := continentMatch b @ [r]\<rparr>
      | Some ByGeneric \<Rightarrow> b\<lparr>generic := generic b @ [r]\<rparr>)"
proof -
  have asn: "(case rd_ASN r of None \<Rightarrow> False | Some a \<Rightarrow> g_ASN g \<noteq> 0 \<and> a = g_ASN g)
      = matches contains ip g ByASN r"
    by (auto split: option.splits)
  have cty: "(case rd_Country r of None \<Rightarrow> False
        | Some c \<Rightarrow> g_Country g \<noteq> [] \<and> EqualFold c (g_Country g))
      = matches contains ip g ByCountry r"
    by (auto split: option.splits dest: EqualFold_nonempty)
  have cnt: "(case rd_Continent r of None \<Rightarrow> False
        | Some c \<Rightarrow> g_Continent g \<noteq> [] \<and> EqualFold c (g_Continent g))
      = matches contains ip g ByContinent r"
    by (auto split: option.splits dest: EqualFold_nonempty)
  have sub: "(case rd_Subnet r of None \<Rightarrow> False | Some cidr \<Rightarrow> contains cidr ip)
      = matches contains ip g BySubnet r"
    by simp
  have gen: "no_geo_attrs r = matches contains ip g ByGeneric r"
    by simp
  show ?thesis
    unfolding geo_step_def asn cty cnt sub gen first_rule_cases by simp
qed

lemma foldl_geo_step:
  "foldl (geo_step contains ip g) b recs =
     \<lparr>subnetMatch = subnetMatch b @ bucket contains ip g BySubnet recs,
      asnMatch = asnMatch b @ bucket contains ip g ByASN recs,
      countryMatch = countryMatch b @ bucket contains ip g ByCountry recs,
      continentMatch = continentMatch b @ bucket contains ip g ByContinent recs,
      generic = generic b @ bucket contains ip g ByGeneric recs\<rparr>"
proof (induction recs arbitrary: b)
  case Nil
  then show ?case by (simp add: bucket_def)
next
  case (Cons r recs)
  show ?case
    unfolding foldl_Cons Cons.IH
    by (simp add: geo_step_rule bucket_def split: option.splits rule.splits)
qed

lemma foldl_generic:
  "foldl (\<lambda>out r. if no_geo_attrs r then out @ [r] else out) acc recs
     = acc @ filter no_geo_attrs recs"
  by (induction recs arbitrary: acc) simp_all

lemma geo_buckets:
  "foldl (geo_step contains ip g) no_buckets recs =
     \<lparr>subnetMatch = bucket contains ip g BySubnet recs,
      asnMatch = bucket contains ip g ByASN recs,
      countryMatch = bucket contains ip g ByCountry recs,
      continentMatch = bucket contains ip g ByContinent recs,
      generic = bucket contains ip g ByGeneric recs\<rparr>"
  by (simp add: foldl_geo_step no_buckets_def)

text \<open>
  C1. For every candidate list, client address and Geo lookup result, the Geo selector
  of the DNS server returns what the specification describes: nothing, with rationale
  \<open>none\<close>, for an empty list; for an invalid address the candidates without any Geo
  attribute, or all candidates when there is none; otherwise the first non-empty bucket
  in the order subnet, ASN, country, continent, generic, where each candidate belongs
  to the bucket of the first rule it matches and keeps its position, or all candidates
  when the five buckets are empty.
\<close>

theorem C1_selectGeoRecords_refines_spec:
  "selectGeoRecords contains recs ip g = geo_spec contains recs ip g"
proof (cases "recs = []")
  case True
  then show ?thesis by (simp add: selectGeoRecords_def geo_spec_def)
next
  case False
  show ?thesis
  proof (cases ip)
    case None
    then show ?thesis
      using False by (simp add: selectGeoRecords_def geo_spec_def foldl_generic Let_def)
  next
    case (Some a)
    then show ?thesis
      using False
      by (simp add: selectGeoRecords_def geo_spec_def geo_buckets priority_def rule_name_def
          Let_def)
  qed
qed

theorem C1_selectGeoRecords_refines_spec_witness:
  "geo_spec scenario_contains scenario_records (Some (8, 8, 8, 8)) scenario_info
     = ([(plain_record ''198.51.100.13'')\<lparr>rd_Subnet := Some ''8.8.8.0/24''\<rparr>], ''subnet'')
   \<and> geo_spec scenario_contains scenario_records (Some (1, 1, 1, 1)) scenario_info
     = ([(plain_record ''198.51.100.11'')\<lparr>rd_Country := Some ''US''\<rparr>], ''country'')
   \<and> geo_spec scenario_contains scenario_records None scenario_info
     = ([plain_record ''198.51.100.12''], ''generic'')"
proof -
  have a: "selectGeoRecords scenario_contains scenario_records (Some (8, 8, 8, 8)) scenario_info
     = ([(plain_record ''198.51.100.13'')\<lparr>rd_Subnet := Some ''8.8.8.0/24''\<rparr>], ''subnet'')"
    by code_simp
  have b: "selectGeoRecords scenario_contains scenario_records (Some (1, 1, 1, 1)) scenario_info
     = ([(plain_record ''198.51.100.11'')\<lparr>rd_Country := Some ''US''\<rparr>], ''country'')"
    by code_simp
  have c: "selectGeoRecords scenario_contains scenario_records None scenario_info
     = ([plain_record ''198.51.100.12''], ''generic'')"
    by code_simp
  show ?thesis
    unfolding C1_selectGeoRecords_refines_spec [symmetric] using a b c by (intro conjI)
qed

section \<open>What the store operations do\<close>


lemma insert_records_rr_sets [simp]:
  "rr_sets (insert_records rid recs st) = rr_sets st"
  by (induction recs arbitrary: st) (simp_all add: create_rdata_def)

lemma insert_records_next_rrset_id [simp]:
  "next_rrset_id (insert_records rid recs st) = next_rrset_id st"
  by (induction recs arbitrary: st) (simp_all add: create_rdata_def)

lemma insert_records_other:
  "rid' \<noteq> rid \<Longrightarrow> records_of (insert_records rid recs st) rid' = records_of st rid'"
  by (induction recs arbitrary: st) (simp_all add: create_rdata_def records_of_def)

lemma insert_records_same:
  "map strip_ids (records_of (insert_records rid recs st) rid)
     = map strip_ids (records_of st rid) @ map strip_ids recs"
  by (induction recs arbitrary: st)
     (simp_all add: create_rdata_def records_of_def strip_ids_def)

lemma insert_records_rrset_ids:
  "list_all (\<lambda>r. rd_RRSetID r < n) (r_data st) \<Longrightarrow> rid < n
   \<Longrightarrow> list_all (\<lambda>r. rd_RRSetID r < n) (r_data (insert_records rid recs st))"
  by (induction recs arbitrary: st) (simp_all add: create_rdata_def)

lemma records_of_delete:
  "records_of (delete_records_of rid st) rid' = (if rid' = rid then [] else records_of st rid')"
  by (auto simp: records_of_def delete_records_of_def filter_empty_conv intro: filter_cong)

lemma records_of_fresh:
  "list_all (\<lambda>r. rd_RRSetID r < n) (r_data st) \<Longrightarrow> n \<le> rid \<Longrightarrow> records_of st rid = []"
  by (auto simp: records_of_def list_all_iff filter_empty_conv)


lemma find_update_row:
  "(\<And>row. row \<in> set rows \<Longrightarrow> rs_ID row = i \<Longrightarrow> P e' = P row)
   \<Longrightarrow> find P (map (\<lambda>row. if rs_ID row = i then e' else row) rows)
       = map_option (\<lambda>row. if rs_ID row = i then e' else row) (find P rows)"
  by (induction rows) auto

lemma find_Some_set: "find P xs = Some x \<Longrightarrow> x \<in> set xs \<and> P x"
  by (induction xs) (auto split: if_splits)

lemma distinct_ids_eq:
  "distinct (map rs_ID rows) \<Longrightarrow> a \<in> set rows \<Longrightarrow> b \<in> set rows \<Longrightarrow> rs_ID a = rs_ID b \<Longrightarrow> a = b"
  by (simp add: distinct_map inj_on_def)

lemma first_rrset_Some:
  "first_rrset st zid n t = Some e
   \<Longrightarrow> e \<in> set (rr_sets st) \<and> rs_ZoneID e = zid \<and> rs_Name e = n \<and> rs_Type e = t"
  unfolding first_rrset_def by (drule find_Some_set) simp

lemma wf_storeD:
  assumes "wf_store st"
  shows "distinct (map rs_ID (rr_sets st))"
    and "\<And>row. row \<in> set (rr_sets st) \<Longrightarrow> rs_ID row < next_rrset_id st"
    and "list_all (\<lambda>r. rd_RRSetID r < next_rrset_id st) (r_data st)"
  using assms by (auto simp: wf_store_def list_all_iff)

lemma save_first_rrset:
  assumes wf: "wf_store tx" and f: "first_rrset tx zid n t = Some e"
  shows "first_rrset (save_rrset (e\<lparr>rs_TTL := ttl, rs_Records := recs\<rparr>) (delete_records_of (rs_ID e) tx))
           zid' n' t'
         = map_option (\<lambda>row. if rs_ID row = rs_ID e then e\<lparr>rs_TTL := ttl, rs_Records := []\<rparr> else row)
             (first_rrset tx zid' n' t')"
proof -
  have e: "e \<in> set (rr_sets tx)" using first_rrset_Some [OF f] by simp
  have same: "row = e" if "row \<in> set (rr_sets tx)" "rs_ID row = rs_ID e" for row
    using distinct_ids_eq [OF wf_storeD(1) [OF wf] that(1) e that(2)] .
  have c: "e\<lparr>rs_TTL := ttl, rs_Records := recs\<rparr>\<lparr>rs_Records := []\<rparr> = e\<lparr>rs_TTL := ttl, rs_Records := []\<rparr>"
    by simp
  have r: "rr_sets (save_rrset (e\<lparr>rs_TTL := ttl, rs_Records := recs\<rparr>) (delete_records_of (rs_ID e) tx))
      = map (\<lambda>row. if rs_ID row = rs_ID e then e\<lparr>rs_TTL := ttl, rs_Records := []\<rparr> else row) (rr_sets tx)"
    unfolding save_rrset_def c by (simp add: delete_records_of_def)
  show ?thesis
    unfolding first_rrset_def r by (rule find_update_row) (auto dest: same)
qed

lemma records_of_rr_sets_update [simp]: "records_of (st\<lparr>rr_sets := x\<rparr>) i = records_of st i"
  by (simp add: records_of_def)

lemma save_view:
  fixes ttl :: nat and recs :: "RData list"
  assumes wf: "wf_store tx" and f: "first_rrset tx zid n t = Some e"
  defines "tx' \<equiv> save_rrset (e\<lparr>rs_TTL := ttl, rs_Records := recs\<rparr>) (delete_records_of (rs_ID e) tx)"
  shows "zone_view tx' zid = (zone_view tx zid)((n, t) \<mapsto> (ttl, map strip_ids recs))"
proof
  fix k :: "string \<times> string"
  obtain n' t' where k: "k = (n', t')" by (cases k)
  have e: "e \<in> set (rr_sets tx)" "rs_ZoneID e = zid" "rs_Name e = n" "rs_Type e = t"
    using first_rrset_Some [OF f] by simp_all
  have recs_e: "map strip_ids (records_of tx' (rs_ID e)) = map strip_ids recs"
    unfolding tx'_def save_rrset_def
    by (simp add: insert_records_same records_of_delete)
  have recs_o: "records_of tx' i = records_of tx i" if "i \<noteq> rs_ID e" for i
    unfolding tx'_def save_rrset_def using that
    by (simp add: insert_records_other records_of_delete)
  have fr: "first_rrset tx' zid n' t'
      = map_option (\<lambda>row. if rs_ID row = rs_ID e then e\<lparr>rs_TTL := ttl, rs_Records := []\<rparr> else row)
          (first_rrset tx zid n' t')"
    unfolding tx'_def by (rule save_first_rrset [OF wf f])
  show "zone_view tx' zid k = ((zone_view tx zid)((n, t) \<mapsto> (ttl, map strip_ids recs))) k"
  proof (cases "first_rrset tx zid n' t'")
    case None
    then have "(n', t') \<noteq> (n, t)" using f by auto
    then show ?thesis using None fr by (auto simp: zone_view_def k)
  next
    case (Some r)
    have r: "r \<in> set (rr_sets tx)" "rs_Name r = n'" "rs_Type r = t'"
      using first_rrset_Some [OF Some] by simp_all
    show ?thesis
    proof (cases "rs_ID r = rs_ID e")
      case True
      then have "r = e"
        using distinct_ids_eq [OF wf_storeD(1) [OF wf] r(1) e(1)] by simp
      then have "(n', t') = (n, t)" using r e by simp
      then show ?thesis using Some fr True recs_e by (simp add: zone_view_def k)
    next
      case False
      then have "r \<noteq> e" by auto
      then have ne: "(n', t') \<noteq> (n, t)" using Some f by auto
      have "zone_view tx' zid k = zone_view tx zid k"
        using Some fr False recs_o [OF False] by (simp add: zone_view_def k)
      then show ?thesis using ne by (auto simp: k)
    qed
  qed
qed

lemma save_rr_sets:
  "rr_sets (save_rrset e st)
     = map (\<lambda>row. if rs_ID row = rs_ID e then e\<lparr>rs_Records := []\<rparr> else row) (rr_sets st)"
  by (simp add: save_rrset_def)

lemma save_next_rrset_id: "next_rrset_id (save_rrset e st) = next_rrset_id st"
  by (simp add: save_rrset_def)

lemma save_rdata_ids:
  "list_all (\<lambda>r. rd_RRSetID r < n) (r_data st) \<Longrightarrow> rs_ID e < n
   \<Longrightarrow> list_all (\<lambda>r. rd_RRSetID r < n) (r_data (save_rrset e st))"
  by (simp add: save_rrset_def insert_records_rrset_ids)

lemma map_update_ids:
  "rs_ID e' = i \<Longrightarrow> map rs_ID (map (\<lambda>row. if rs_ID row = i then e' else row) rows) = map rs_ID rows"
  by (induction rows) auto

lemma save_wf:
  assumes wf: "wf_store tx" and f: "first_rrset tx zid n t = Some e"
  shows "wf_store (save_rrset (e\<lparr>rs_TTL := ttl, rs_Records := recs\<rparr>) (delete_records_of (rs_ID e) tx))"
proof -
  let ?e = "e\<lparr>rs_TTL := ttl, rs_Records := recs\<rparr>"
  let ?d = "delete_records_of (rs_ID e) tx"
  have e: "e \<in> set (rr_sets tx)" using first_rrset_Some [OF f] by simp
  have lt: "rs_ID ?e < next_rrset_id ?d"
    using wf_storeD(2) [OF wf e] by (simp add: delete_records_of_def)
  have d: "list_all (\<lambda>r. rd_RRSetID r < next_rrset_id ?d) (r_data ?d)"
    using wf_storeD(3) [OF wf] by (simp add: delete_records_of_def list_all_iff)
  have ids: "map rs_ID (rr_sets (save_rrset ?e ?d)) = map rs_ID (rr_sets tx)"
    unfolding save_rr_sets by (simp add: map_update_ids delete_records_of_def)
  have a: "distinct (map rs_ID (rr_sets (save_rrset ?e ?d)))"
    unfolding ids using wf_storeD(1) [OF wf] .
  have "list_all (\<lambda>i. i < next_rrset_id tx) (map rs_ID (rr_sets tx))"
    using wf_storeD(2) [OF wf] by (simp add: list_all_iff)
  then have "list_all (\<lambda>i. i < next_rrset_id tx) (map rs_ID (rr_sets (save_rrset ?e ?d)))"
    unfolding ids .
  then have b: "list_all (\<lambda>row. rs_ID row < next_rrset_id (save_rrset ?e ?d)) (rr_sets (save_rrset ?e ?d))"
    by (simp add: save_next_rrset_id delete_records_of_def list_all_iff)
  have c: "list_all (\<lambda>r. rd_RRSetID r < next_rrset_id (save_rrset ?e ?d)) (r_data (save_rrset ?e ?d))"
    unfolding save_next_rrset_id using d lt by (rule save_rdata_ids)
  show ?thesis unfolding wf_store_def using a b c by (intro conjI)
qed


lemma save_untouched:
  fixes ttl :: nat and recs :: "RData list"
  assumes wf: "wf_store tx" and f: "first_rrset tx zid n t = Some e"
    and row: "row \<in> set (rr_sets tx)"
    and other: "rs_ZoneID row \<noteq> zid \<or> rrset_key row \<noteq> (n, t)"
  shows "untouched tx (save_rrset (e\<lparr>rs_TTL := ttl, rs_Records := recs\<rparr>)
           (delete_records_of (rs_ID e) tx)) row"
proof -
  let ?tx' = "save_rrset (e\<lparr>rs_TTL := ttl, rs_Records := recs\<rparr>) (delete_records_of (rs_ID e) tx)"
  have e: "e \<in> set (rr_sets tx)" "rs_ZoneID e = zid" "rs_Name e = n" "rs_Type e = t"
    using first_rrset_Some [OF f] by simp_all
  have "row \<noteq> e" using other e by (auto simp: rrset_key_def)
  then have ne: "rs_ID row \<noteq> rs_ID e"
    using distinct_ids_eq [OF wf_storeD(1) [OF wf] row e(1)] by blast
  have "row \<in> set (rr_sets ?tx')"
    unfolding save_rr_sets using row ne by (auto simp: delete_records_of_def image_iff)
  moreover have "records_of ?tx' (rs_ID row) = records_of tx (rs_ID row)"
    unfolding save_rrset_def using ne by (simp add: insert_records_other records_of_delete)
  ultimately show ?thesis by (simp add: untouched_def)
qed

lemma create_rrset_Inr:
  assumes "create_rrset rs tx = Inr (c, tx')"
  shows "first_rrset tx (rs_ZoneID rs) (rs_Name rs) (rs_Type rs) = None"
    and "tx' = insert_records (next_rrset_id tx) (rs_Records rs)
           (tx\<lparr>rr_sets := rr_sets tx @ [rs\<lparr>rs_ID := next_rrset_id tx, rs_Records := []\<rparr>],
               next_rrset_id := Suc (next_rrset_id tx)\<rparr>)"
    and "c = rs\<lparr>rs_ID := next_rrset_id tx\<rparr>"
  using assms by (auto simp: create_rrset_def Let_def split: if_splits)

lemma create_rrset_None:
  "first_rrset tx (rs_ZoneID rs) (rs_Name rs) (rs_Type rs) = None
   \<Longrightarrow> \<exists>c tx'. create_rrset rs tx = Inr (c, tx')"
  by (simp add: create_rrset_def Let_def)

lemma find_append_one:
  "find P (xs @ [x]) = (case find P xs of Some y \<Rightarrow> Some y | None \<Rightarrow> if P x then Some x else None)"
  by (induction xs) auto

lemma create_rr_sets:
  assumes "create_rrset rs tx = Inr (c, tx')"
  shows "rr_sets tx' = rr_sets tx @ [rs\<lparr>rs_ID := next_rrset_id tx, rs_Records := []\<rparr>]"
    and "next_rrset_id tx' = Suc (next_rrset_id tx)"
  unfolding create_rrset_Inr(2) [OF assms] by simp_all

lemma create_records_old:
  assumes c: "create_rrset rs tx = Inr (c, tx')" and i: "i \<noteq> next_rrset_id tx"
  shows "records_of tx' i = records_of tx i"
  unfolding create_rrset_Inr(2) [OF c] using i
  by (simp add: insert_records_other) (simp add: records_of_def)

lemma create_records_new:
  assumes wf: "wf_store tx" and c: "create_rrset rs tx = Inr (c, tx')"
  shows "map strip_ids (records_of tx' (next_rrset_id tx)) = map strip_ids (rs_Records rs)"
proof -
  have "records_of tx (next_rrset_id tx) = []"
    using wf_storeD(3) [OF wf] by (rule records_of_fresh) simp
  then show ?thesis
    unfolding create_rrset_Inr(2) [OF c]
    by (simp add: insert_records_same) (simp add: records_of_def)
qed

lemma create_wf:
  assumes wf: "wf_store tx" and c: "create_rrset rs tx = Inr (c, tx')"
  shows "wf_store tx'"
proof -
  have lt: "\<And>row. row \<in> set (rr_sets tx) \<Longrightarrow> rs_ID row < next_rrset_id tx"
    using wf_storeD(2) [OF wf] .
  have a: "distinct (map rs_ID (rr_sets tx'))"
    unfolding create_rr_sets(1) [OF c] using wf_storeD(1) [OF wf] by (force dest: lt)
  have b: "list_all (\<lambda>row. rs_ID row < next_rrset_id tx') (rr_sets tx')"
    unfolding create_rr_sets [OF c] using lt by (auto simp: list_all_iff less_Suc_eq)
  have "list_all (\<lambda>r. rd_RRSetID r < Suc (next_rrset_id tx)) (r_data tx)"
    using wf_storeD(3) [OF wf] by (auto simp: list_all_iff less_Suc_eq)
  then have c': "list_all (\<lambda>r. rd_RRSetID r < next_rrset_id tx') (r_data tx')"
    unfolding create_rr_sets(2) [OF c] unfolding create_rrset_Inr(2) [OF c]
    by (intro insert_records_rrset_ids) simp_all
  show ?thesis unfolding wf_store_def using a b c' by (intro conjI)
qed

lemma create_view:
  assumes wf: "wf_store tx" and c: "create_rrset rs tx = Inr (c, tx')"
  shows "zone_view tx' (rs_ZoneID rs)
         = (zone_view tx (rs_ZoneID rs))(rrset_key rs \<mapsto> (rs_TTL rs, map strip_ids (rs_Records rs)))"
proof
  fix k :: "string \<times> string"
  obtain n' t' where k: "k = (n', t')" by (cases k)
  let ?zid = "rs_ZoneID rs"
  let ?new = "rs\<lparr>rs_ID := next_rrset_id tx, rs_Records := []\<rparr>"
  have none: "first_rrset tx ?zid (rs_Name rs) (rs_Type rs) = None"
    using create_rrset_Inr(1) [OF c] .
  have fr: "first_rrset tx' ?zid n' t'
      = (case first_rrset tx ?zid n' t' of Some y \<Rightarrow> Some y
         | None \<Rightarrow> if (n', t') = rrset_key rs then Some ?new else None)"
    unfolding first_rrset_def create_rr_sets(1) [OF c] find_append_one
    by (auto simp: rrset_key_def split: option.splits)
  show "zone_view tx' ?zid k
      = ((zone_view tx ?zid)(rrset_key rs \<mapsto> (rs_TTL rs, map strip_ids (rs_Records rs)))) k"
  proof (cases "first_rrset tx ?zid n' t'")
    case None
    show ?thesis
    proof (cases "(n', t') = rrset_key rs")
      case True
      then have nt: "n' = rs_Name rs" "t' = rs_Type rs" by (simp_all add: rrset_key_def)
      have "zone_view tx' ?zid k = Some (rs_TTL rs, map strip_ids (rs_Records rs))"
        using None fr create_records_new [OF wf c] unfolding nt k
        by (simp add: zone_view_def rrset_key_def)
      then show ?thesis using True by (simp add: k)
    next
      case False
      then show ?thesis using None fr by (auto simp: zone_view_def k)
    qed
  next
    case (Some r)
    then have ne: "(n', t') \<noteq> rrset_key rs" using none by (auto simp: rrset_key_def)
    have "r \<in> set (rr_sets tx)" using first_rrset_Some [OF Some] by simp
    then have "rs_ID r \<noteq> next_rrset_id tx" using wf_storeD(2) [OF wf] by fastforce
    then have "records_of tx' (rs_ID r) = records_of tx (rs_ID r)"
      by (rule create_records_old [OF c])
    then have "zone_view tx' ?zid k = zone_view tx ?zid k"
      using Some fr by (simp add: zone_view_def k)
    then show ?thesis using ne by (auto simp: k)
  qed
qed

lemma create_untouched:
  assumes wf: "wf_store tx" and c: "create_rrset rs tx = Inr (c, tx')"
    and row: "row \<in> set (rr_sets tx)"
  shows "untouched tx tx' row"
proof -
  have "rs_ID row \<noteq> next_rrset_id tx" using wf_storeD(2) [OF wf row] by simp
  then have "records_of tx' (rs_ID row) = records_of tx (rs_ID row)"
    by (rule create_records_old [OF c])
  moreover have "row \<in> set (rr_sets tx')"
    unfolding create_rr_sets(1) [OF c] using row by simp
  ultimately show ?thesis by (simp add: untouched_def)
qed


lemma incoming_rrset_Inr:
  assumes "incoming_rrset dst d rs0 = Inr rs"
  shows "rs_ZoneID rs = z_ID dst"
    and "map strip_ids (rs_Records rs) = rs_Records rs"
    and "NormalizeRRSetName (rs_Name rs0) (z_Name dst) = Inr (rs_Name rs)"
    and "rs_Type rs = ToUpper (rs_Type rs0)"
    and "rs_TTL rs = (if rs_TTL rs0 = 0 \<and> d > 0 then d else rs_TTL rs0)"
    and "rs_Records rs = map strip_ids (rs_Records rs0)"
  using assms
  by (auto simp: incoming_rrset_def Let_def strip_ids_def split: sum.splits if_splits)

lemma untouched_trans:
  "untouched a b row \<Longrightarrow> untouched b c row \<Longrightarrow> untouched a c row"
  by (simp add: untouched_def)

lemma untouched_refl: "row \<in> set (rr_sets a) \<Longrightarrow> untouched a a row"
  by (simp add: untouched_def)

lemma import_rrset_step:
  assumes wf: "wf_store tx" and inc: "incoming_rrset dst d rs0 = Inr rs"
  shows "\<exists>tx'. import_rrset dst d rs0 tx = Inr tx' \<and> wf_store tx'
     \<and> zone_view tx' (z_ID dst)
         = (zone_view tx (z_ID dst))(rrset_key rs \<mapsto> (rs_TTL rs, rs_Records rs))
     \<and> (\<forall>row \<in> set (rr_sets tx).
           rs_ZoneID row \<noteq> z_ID dst \<or> rrset_key row \<noteq> rrset_key rs \<longrightarrow> untouched tx tx' row)"
proof (cases "first_rrset tx (z_ID dst) (rs_Name rs) (rs_Type rs)")
  case (Some e)
  let ?tx' = "save_rrset (e\<lparr>rs_TTL := rs_TTL rs, rs_Records := rs_Records rs\<rparr>)
                (delete_records_of (rs_ID e) tx)"
  have 1: "import_rrset dst d rs0 tx = Inr ?tx'"
    using inc Some by (simp add: import_rrset_def)
  have 2: "wf_store ?tx'" by (rule save_wf [OF wf Some])
  have 3: "zone_view ?tx' (z_ID dst)
         = (zone_view tx (z_ID dst))(rrset_key rs \<mapsto> (rs_TTL rs, rs_Records rs))"
    using save_view [OF wf Some, where ttl = "rs_TTL rs" and recs = "rs_Records rs"]
    by (simp add: rrset_key_def incoming_rrset_Inr(2) [OF inc])
  have 4: "\<forall>row \<in> set (rr_sets tx).
           rs_ZoneID row \<noteq> z_ID dst \<or> rrset_key row \<noteq> rrset_key rs \<longrightarrow> untouched tx ?tx' row"
    using save_untouched [OF wf Some] by (simp add: rrset_key_def)
  from 1 2 3 4 show ?thesis by blast
next
  case None
  then have "first_rrset tx (rs_ZoneID rs) (rs_Name rs) (rs_Type rs) = None"
    by (simp add: incoming_rrset_Inr(1) [OF inc])
  then obtain c tx' where c: "create_rrset rs tx = Inr (c, tx')"
    using create_rrset_None by blast
  have 1: "import_rrset dst d rs0 tx = Inr tx'"
    using inc None c by (simp add: import_rrset_def)
  have 2: "wf_store tx'" by (rule create_wf [OF wf c])
  have 3: "zone_view tx' (z_ID dst)
         = (zone_view tx (z_ID dst))(rrset_key rs \<mapsto> (rs_TTL rs, rs_Records rs))"
    using create_view [OF wf c]
    by (simp add: incoming_rrset_Inr(1,2) [OF inc])
  have 4: "\<forall>row \<in> set (rr_sets tx).
           rs_ZoneID row \<noteq> z_ID dst \<or> rrset_key row \<noteq> rrset_key rs \<longrightarrow> untouched tx tx' row"
    using create_untouched [OF wf c] by simp
  from 1 2 3 4 show ?thesis by blast
qed

lemma payload_view_Nil: "payload_view [] = Map.empty"
  by (simp add: payload_view_def)

lemma payload_view_Cons:
  "m ++ payload_view (r # rs) = (m(rrset_key r \<mapsto> (rs_TTL r, rs_Records r))) ++ payload_view rs"
  by (simp add: payload_view_def payload_entry_def map_add_upd_left fun_eq_iff map_add_def
      split: option.splits)

lemma incoming_all_Cons_Inr:
  "incoming_all dst d (r0 # rest) = Inr inc
   \<Longrightarrow> \<exists>r inc'. incoming_rrset dst d r0 = Inr r \<and> incoming_all dst d rest = Inr inc' \<and> inc = r # inc'"
  by (auto split: sum.splits)

lemma import_loop_view:
  assumes "wf_store tx" and "incoming_all dst d rsets = Inr inc"
  shows "\<exists>tx'. import_loop dst d rsets tx = Inr tx' \<and> wf_store tx'
     \<and> zone_view tx' (z_ID dst) = zone_view tx (z_ID dst) ++ payload_view inc
     \<and> (\<forall>row \<in> set (rr_sets tx).
           rs_ZoneID row \<noteq> z_ID dst \<or> rrset_key row \<notin> set (map rrset_key inc)
           \<longrightarrow> untouched tx tx' row)"
  using assms
proof (induction rsets arbitrary: tx inc)
  case Nil
  then show ?case by (simp add: payload_view_Nil untouched_refl)
next
  case (Cons r0 rest)
  from incoming_all_Cons_Inr [OF Cons.prems(2)] obtain r inc' where
    r: "incoming_rrset dst d r0 = Inr r" and inc': "incoming_all dst d rest = Inr inc'"
    and inc: "inc = r # inc'" by blast
  from import_rrset_step [OF Cons.prems(1) r] obtain tx1 where
    s1: "import_rrset dst d r0 tx = Inr tx1" and wf1: "wf_store tx1"
    and v1: "zone_view tx1 (z_ID dst)
         = (zone_view tx (z_ID dst))(rrset_key r \<mapsto> (rs_TTL r, rs_Records r))"
    and u1: "\<forall>row \<in> set (rr_sets tx).
           rs_ZoneID row \<noteq> z_ID dst \<or> rrset_key row \<noteq> rrset_key r \<longrightarrow> untouched tx tx1 row"
    by blast
  from Cons.IH [OF wf1 inc'] obtain tx' where
    s2: "import_loop dst d rest tx1 = Inr tx'" and wf2: "wf_store tx'"
    and v2: "zone_view tx' (z_ID dst) = zone_view tx1 (z_ID dst) ++ payload_view inc'"
    and u2: "\<forall>row \<in> set (rr_sets tx1).
           rs_ZoneID row \<noteq> z_ID dst \<or> rrset_key row \<notin> set (map rrset_key inc')
           \<longrightarrow> untouched tx1 tx' row"
    by blast
  have a: "import_loop dst d (r0 # rest) tx = Inr tx'" using s1 s2 by simp
  have b: "zone_view tx' (z_ID dst) = zone_view tx (z_ID dst) ++ payload_view inc"
    unfolding v2 v1 inc payload_view_Cons ..
  have c: "untouched tx tx' row"
    if row: "row \<in> set (rr_sets tx)"
      and o: "rs_ZoneID row \<noteq> z_ID dst \<or> rrset_key row \<notin> set (map rrset_key inc)" for row
  proof -
    have o1: "rs_ZoneID row \<noteq> z_ID dst \<or> rrset_key row \<noteq> rrset_key r"
      and o2: "rs_ZoneID row \<noteq> z_ID dst \<or> rrset_key row \<notin> set (map rrset_key inc')"
      using o unfolding inc by auto
    have t1: "untouched tx tx1 row" using u1 row o1 by blast
    then have "row \<in> set (rr_sets tx1)" by (simp add: untouched_def)
    then have "untouched tx1 tx' row" using u2 o2 by blast
    with t1 show ?thesis by (rule untouched_trans)
  qed
  from a wf2 b c show ?case by blast
qed

lemma import_loop_error:
  "\<exists>rs \<in> set rsets. isl (incoming_rrset dst d rs) \<Longrightarrow> isl (import_loop dst d rsets tx)"
proof (induction rsets arbitrary: tx)
  case Nil
  then show ?case by simp
next
  case (Cons r rest)
  show ?case
  proof (cases "import_rrset dst d r tx")
    case (Inl e)
    then show ?thesis by simp
  next
    case (Inr tx1)
    then have "\<not> isl (incoming_rrset dst d r)"
      by (auto simp: import_rrset_def split: sum.splits)
    then have "\<exists>rs \<in> set rest. isl (incoming_rrset dst d rs)" using Cons.prems by auto
    from Cons.IH [OF this] show ?thesis using Inr by simp
  qed
qed

lemma NormalizeRRSetName_unchecked:
  "NormalizeRRSetName x z =
     (if in_zone (unchecked_name x z) z then Inr (unchecked_name x z)
      else Inl (NameNotInZone x z))"
  by (simp add: NormalizeRRSetName_def unchecked_name_def in_zone_def zoneFQDN_of_def Let_def)

lemma find_None_set: "find P xs = None \<Longrightarrow> x \<in> set xs \<Longrightarrow> \<not> P x"
  by (induction xs) (auto split: if_splits)

lemma unique_index_alt: "unique_index st = distinct (map row_key (rr_sets st))"
  by (simp add: unique_index_def row_key_def [abs_def])

lemma map_update_key:
  "(\<And>row. row \<in> set rows \<Longrightarrow> rs_ID row = i \<Longrightarrow> g e' = g row)
   \<Longrightarrow> map g (map (\<lambda>row. if rs_ID row = i then e' else row) rows) = map g rows"
  by (induction rows) auto

lemma save_existing_rr_sets:
  "rr_sets (save_rrset (e\<lparr>rs_TTL := ttl, rs_Records := recs\<rparr>) (delete_records_of (rs_ID e) tx))
     = map (\<lambda>row. if rs_ID row = rs_ID e then e\<lparr>rs_TTL := ttl, rs_Records := []\<rparr> else row)
         (rr_sets tx)"
  by (simp add: save_rrset_def delete_records_of_def)

lemma save_unique:
  assumes wf: "wf_store tx" and f: "first_rrset tx zid n t = Some e" and u: "unique_index tx"
  shows "unique_index (save_rrset (e\<lparr>rs_TTL := ttl, rs_Records := recs\<rparr>) (delete_records_of (rs_ID e) tx))"
proof -
  have e: "e \<in> set (rr_sets tx)" using first_rrset_Some [OF f] by simp
  have same: "row = e" if "row \<in> set (rr_sets tx)" "rs_ID row = rs_ID e" for row
    using distinct_ids_eq [OF wf_storeD(1) [OF wf] that(1) e that(2)] .
  have "map row_key (map (\<lambda>row. if rs_ID row = rs_ID e
            then e\<lparr>rs_TTL := ttl, rs_Records := []\<rparr> else row) (rr_sets tx))
      = map row_key (rr_sets tx)"
    by (rule map_update_key) (auto simp: row_key_def dest: same)
  then show ?thesis
    unfolding unique_index_alt save_existing_rr_sets using u [unfolded unique_index_alt]
    by (simp only:)
qed

lemma create_unique:
  assumes c: "create_rrset rs tx = Inr (c, tx')" and u: "unique_index tx"
  shows "unique_index tx'"
proof -
  have none: "first_rrset tx (rs_ZoneID rs) (rs_Name rs) (rs_Type rs) = None"
    using create_rrset_Inr(1) [OF c] .
  have ne: "row_key row \<noteq> row_key rs" if "row \<in> set (rr_sets tx)" for row
    using find_None_set [OF none [unfolded first_rrset_def] that] by (simp add: row_key_def)
  have k: "row_key (rs\<lparr>rs_ID := next_rrset_id tx, rs_Records := []\<rparr>) = row_key rs"
    by (simp add: row_key_def)
  have "row_key (rs\<lparr>rs_ID := next_rrset_id tx, rs_Records := []\<rparr>) \<notin> set (map row_key (rr_sets tx))"
  proof
    assume "row_key (rs\<lparr>rs_ID := next_rrset_id tx, rs_Records := []\<rparr>) \<in> set (map row_key (rr_sets tx))"
    then obtain row where "row \<in> set (rr_sets tx)" "row_key row = row_key rs"
      unfolding k by auto
    then show False using ne by blast
  qed
  then show ?thesis
    using u unfolding unique_index_alt create_rr_sets(1) [OF c] by simp
qed

lemma import_rrset_Inr:
  assumes "import_rrset dst d r0 tx = Inr tx1"
  shows "\<exists>r. incoming_rrset dst d r0 = Inr r"
  using assms by (auto simp: import_rrset_def split: sum.splits)

lemma import_rrset_unique:
  assumes wf: "wf_store tx" and u: "unique_index tx" and s: "import_rrset dst d r0 tx = Inr tx1"
  shows "unique_index tx1"
proof -
  from import_rrset_Inr [OF s] obtain rs where inc: "incoming_rrset dst d r0 = Inr rs" by blast
  show ?thesis
  proof (cases "first_rrset tx (z_ID dst) (rs_Name rs) (rs_Type rs)")
    case (Some e)
    then have "tx1 = save_rrset (e\<lparr>rs_TTL := rs_TTL rs, rs_Records := rs_Records rs\<rparr>)
                (delete_records_of (rs_ID e) tx)"
      using s inc by (simp add: import_rrset_def)
    then show ?thesis using save_unique [OF wf Some u] by simp
  next
    case None
    then obtain c where "create_rrset rs tx = Inr (c, tx1)"
      using s inc by (auto simp: import_rrset_def split: sum.splits)
    then show ?thesis using u by (rule create_unique)
  qed
qed

lemma import_rrset_deleted:
  assumes wf: "wf_store tx" and dl: "deleted_rrset tx i" and s: "import_rrset dst d r0 tx = Inr tx1"
  shows "deleted_rrset tx1 i"
proof -
  from import_rrset_Inr [OF s] obtain rs where inc: "incoming_rrset dst d r0 = Inr rs" by blast
  have i: "i < next_rrset_id tx" "i \<notin> set (map rs_ID (rr_sets tx))" "records_of tx i = []"
    using dl by (simp_all add: deleted_rrset_def)
  show ?thesis
  proof (cases "first_rrset tx (z_ID dst) (rs_Name rs) (rs_Type rs)")
    case (Some e)
    let ?e = "e\<lparr>rs_TTL := rs_TTL rs, rs_Records := rs_Records rs\<rparr>"
    have tx1: "tx1 = save_rrset ?e (delete_records_of (rs_ID e) tx)"
      using s inc Some by (simp add: import_rrset_def)
    have e: "e \<in> set (rr_sets tx)" using first_rrset_Some [OF Some] by simp
    then have ne: "i \<noteq> rs_ID e" using i(2) by auto
    have ids: "map rs_ID (rr_sets tx1) = map rs_ID (rr_sets tx)"
      unfolding tx1 save_rr_sets by (simp add: map_update_ids delete_records_of_def)
    have "records_of tx1 i = records_of tx i"
      unfolding tx1 save_rrset_def using ne by (simp add: insert_records_other records_of_delete)
    then show ?thesis
      using i ids unfolding deleted_rrset_def tx1 save_next_rrset_id
      by (simp add: delete_records_of_def)
  next
    case None
    then obtain c where c: "create_rrset rs tx = Inr (c, tx1)"
      using s inc by (auto simp: import_rrset_def split: sum.splits)
    have "records_of tx1 i = records_of tx i"
      using i(1) by (intro create_records_old [OF c]) simp
    then show ?thesis
      using i unfolding deleted_rrset_def create_rr_sets [OF c] by simp
  qed
qed

lemma import_loop_invariants:
  assumes "wf_store tx" and "import_loop dst d rsets tx = Inr tx'"
  shows "(unique_index tx \<longrightarrow> unique_index tx') \<and> (deleted_rrset tx i \<longrightarrow> deleted_rrset tx' i)"
  using assms
proof (induction rsets arbitrary: tx)
  case Nil
  then show ?case by simp
next
  case (Cons r0 rest)
  from Cons.prems(2) obtain tx1 where s1: "import_rrset dst d r0 tx = Inr tx1"
    and s2: "import_loop dst d rest tx1 = Inr tx'"
    by (auto split: sum.splits)
  from import_rrset_Inr [OF s1] obtain rs where inc: "incoming_rrset dst d r0 = Inr rs" by blast
  have wf1: "wf_store tx1"
    using import_rrset_step [OF Cons.prems(1) inc] s1 by auto
  show ?case
    using Cons.IH [OF wf1 s2] import_rrset_unique [OF Cons.prems(1) _ s1]
      import_rrset_deleted [OF Cons.prems(1) _ s1] by blast
qed

lemma delete_zone_rr_sets:
  "rr_sets (delete_zone_rrsets zid tx) = filter (\<lambda>row. rs_ZoneID row \<noteq> zid) (rr_sets tx)"
  by (simp add: delete_zone_rrsets_def Let_def)

lemma delete_zone_next: "next_rrset_id (delete_zone_rrsets zid tx) = next_rrset_id tx"
  by (simp add: delete_zone_rrsets_def Let_def)

lemma delete_zone_r_data:
  "r_data (delete_zone_rrsets zid tx)
     = filter (\<lambda>r. rd_RRSetID r \<notin> rs_ID ` {row \<in> set (rr_sets tx). rs_ZoneID row = zid}) (r_data tx)"
proof (cases "filter (\<lambda>row. rs_ZoneID row = zid) (rr_sets tx) = []")
  case True
  then have e: "{row \<in> set (rr_sets tx). rs_ZoneID row = zid} = {}"
    by (auto simp: filter_empty_conv)
  have "filter (\<lambda>r. rd_RRSetID r \<notin> rs_ID ` {row \<in> set (rr_sets tx). rs_ZoneID row = zid}) (r_data tx)
      = r_data tx"
    unfolding e by simp
  moreover have "r_data (delete_zone_rrsets zid tx) = r_data tx"
    using True by (simp add: delete_zone_rrsets_def Let_def)
  ultimately show ?thesis by (simp only:)
next
  case False
  then show ?thesis by (simp add: delete_zone_rrsets_def Let_def)
qed

lemma delete_zone_wf: "wf_store tx \<Longrightarrow> wf_store (delete_zone_rrsets zid tx)"
  unfolding wf_store_def delete_zone_rr_sets delete_zone_next delete_zone_r_data
  by (auto simp: list_all_iff distinct_map_filter)

lemma delete_zone_unique: "unique_index tx \<Longrightarrow> unique_index (delete_zone_rrsets zid tx)"
  unfolding unique_index_def delete_zone_rr_sets by (rule distinct_map_filter)

lemma delete_zone_view: "zone_view (delete_zone_rrsets zid tx) zid = Map.empty"
proof
  fix k
  have "find (\<lambda>row. rs_ZoneID row = zid \<and> rs_Name row = fst k \<and> rs_Type row = snd k)
          (filter (\<lambda>row. rs_ZoneID row \<noteq> zid) (rr_sets tx)) = None"
    by (simp add: find_None_iff)
  then show "zone_view (delete_zone_rrsets zid tx) zid k = None"
    by (simp add: zone_view_def first_rrset_def delete_zone_rr_sets)
qed

lemma delete_zone_untouched:
  assumes wf: "wf_store tx" and row: "row \<in> set (rr_sets tx)" and o: "rs_ZoneID row \<noteq> zid"
  shows "untouched tx (delete_zone_rrsets zid tx) row"
proof -
  have nin: "rs_ID row \<notin> rs_ID ` {r \<in> set (rr_sets tx). rs_ZoneID r = zid}"
  proof
    assume "rs_ID row \<in> rs_ID ` {r \<in> set (rr_sets tx). rs_ZoneID r = zid}"
    then obtain r where r: "r \<in> set (rr_sets tx)" "rs_ZoneID r = zid" "rs_ID row = rs_ID r"
      by auto
    from distinct_ids_eq [OF wf_storeD(1) [OF wf] row r(1) r(3)] show False using o r(2) by simp
  qed
  have "records_of (delete_zone_rrsets zid tx) (rs_ID row) = records_of tx (rs_ID row)"
    unfolding records_of_def delete_zone_r_data filter_filter
  proof (rule filter_cong [OF refl])
    fix x
    show "(rd_RRSetID x \<notin> rs_ID ` {row \<in> set (rr_sets tx). rs_ZoneID row = zid}
        \<and> rd_RRSetID x = rs_ID row) = (rd_RRSetID x = rs_ID row)"
      by (cases "rd_RRSetID x = rs_ID row") (use nin in simp_all)
  qed
  then show ?thesis
    using row o by (simp add: untouched_def delete_zone_rr_sets)
qed

lemma delete_zone_deleted:
  assumes wf: "wf_store tx" and row: "row \<in> set (rr_sets tx)" and z: "rs_ZoneID row = zid"
  shows "deleted_rrset (delete_zone_rrsets zid tx) (rs_ID row)"
proof -
  have a: "rs_ID row < next_rrset_id tx" using wf_storeD(2) [OF wf row] .
  have b: "rs_ID row \<notin> set (map rs_ID (filter (\<lambda>r. rs_ZoneID r \<noteq> zid) (rr_sets tx)))"
  proof
    assume "rs_ID row \<in> set (map rs_ID (filter (\<lambda>r. rs_ZoneID r \<noteq> zid) (rr_sets tx)))"
    then obtain r where r: "r \<in> set (rr_sets tx)" "rs_ZoneID r \<noteq> zid" "rs_ID row = rs_ID r"
      by auto
    from distinct_ids_eq [OF wf_storeD(1) [OF wf] row r(1) r(3)] show False using z r(2) by simp
  qed
  have c: "records_of (delete_zone_rrsets zid tx) (rs_ID row) = []"
    unfolding records_of_def delete_zone_r_data using row z by (auto simp: filter_empty_conv)
  show ?thesis
    unfolding deleted_rrset_def delete_zone_rr_sets delete_zone_next using a b c by simp
qed


section \<open>JSON import: replace and upsert\<close>

lemma imports_as_incoming:
  assumes "imports_as dst d rs e"
  shows "\<exists>r. incoming_rrset dst d rs = Inr r \<and> payload_entry r = e"
proof -
  obtain n t ttl recs where e: "e = ((n, t), (ttl, recs))"
    by (cases e) auto
  from assms have n: "NormalizeRRSetName (rs_Name rs) (z_Name dst) = Inr n"
    and t: "t = ToUpper (rs_Type rs)"
    and ttl: "ttl = (if rs_TTL rs = 0 \<and> 0 < d then d else rs_TTL rs)"
    and recs: "recs = map strip_ids (rs_Records rs)"
    unfolding imports_as_def e by simp_all
  show ?thesis
    unfolding e t ttl recs
    by (simp add: incoming_rrset_def Let_def n payload_entry_def rrset_key_def strip_ids_def)
qed

lemma imports_as_incoming_all:
  assumes "list_all2 (imports_as dst d) rsets entries"
  shows "\<exists>inc. incoming_all dst d rsets = Inr inc \<and> map payload_entry inc = entries"
  using assms
proof (induction rule: list_all2_induct)
  case Nil
  then show ?case by simp
next
  case (Cons rs rsets e entries)
  from imports_as_incoming [OF Cons.hyps(1)] obtain r where
    r: "incoming_rrset dst d rs = Inr r" and re: "payload_entry r = e" by blast
  from Cons.IH obtain inc where
    inc: "incoming_all dst d rsets = Inr inc" and ie: "map payload_entry inc = entries" by blast
  have a: "incoming_all dst d (rs # rsets) = Inr (r # inc)"
    using r inc by simp
  have b: "map payload_entry (r # inc) = e # entries"
    using re ie by simp
  from a b show ?case by (intro exI [of _ "r # inc"] conjI)
qed

lemma entries_keys:
  assumes "map payload_entry inc = entries"
  shows "set (map rrset_key inc) = fst ` set entries"
    and "payload_view inc = map_of (rev entries)"
proof -
  have "map rrset_key inc = map fst (map payload_entry inc)"
    by (simp add: payload_entry_def)
  then show "set (map rrset_key inc) = fst ` set entries"
    unfolding assms by simp
  show "payload_view inc = map_of (rev entries)"
    unfolding payload_view_def assms ..
qed

text \<open>
  C3. Let every RRSet of the payload have a name that normalizes against the target
  zone, and let \<open>entries\<close> be the payload as the specification reads it: for each
  RRSet, in order, the normalized name and the type in upper case, with the incoming TTL
  (the default TTL when the incoming one is zero and a default is configured) and the
  incoming records. Then the import succeeds. In mode \<open>replace\<close> the RRSets and records
  that the zone had are deleted, and a lookup by zone, name and type finds exactly the
  entries (of several with the same name and type the last one). In mode \<open>upsert\<close> a
  lookup finds the entry for every name and type that the payload names, with the TTL
  and the records of the payload, and what was there before for every other name and
  type; the rows and records of the RRSets that the payload does not name are the same
  as before. In both modes the other zones are as before and the unique index on
  (zone, name, type) keeps holding.
\<close>

theorem C3_ImportJSON_replace_upsert:
  assumes wf: "wf_store db"
    and payload: "list_all2 (imports_as dst defaultTTL) (z_RRSets src) entries"
  shows "\<exists>db'. ImportJSON db dst src mode defaultTTL = (None, db')
     \<and> wf_store db'
     \<and> (unique_index db \<longrightarrow> unique_index db')
     \<and> (mode = ''replace'' \<longrightarrow>
           zone_view db' (z_ID dst) = map_of (rev entries)
           \<and> (\<forall>row \<in> set (rr_sets db).
                 rs_ZoneID row = z_ID dst \<longrightarrow> deleted_rrset db' (rs_ID row)))
     \<and> (mode \<noteq> ''replace'' \<longrightarrow>
           zone_view db' (z_ID dst) = zone_view db (z_ID dst) ++ map_of (rev entries)
           \<and> (\<forall>row \<in> set (rr_sets db).
                 rs_ZoneID row = z_ID dst \<and> rrset_key row \<notin> fst ` set entries
                 \<longrightarrow> untouched db db' row))
     \<and> (\<forall>row \<in> set (rr_sets db). rs_ZoneID row \<noteq> z_ID dst \<longrightarrow> untouched db db' row)"
proof -
  let ?zid = "z_ID dst"
  let ?tx = "if mode = ''replace'' then delete_zone_rrsets ?zid db else db"
  from imports_as_incoming_all [OF payload] obtain inc where
    inc: "incoming_all dst defaultTTL (z_RRSets src) = Inr inc"
    and ie: "map payload_entry inc = entries" by blast
  note keys = entries_keys [OF ie]
  have wftx: "wf_store ?tx" using wf by (simp add: delete_zone_wf)
  from import_loop_view [OF wftx inc] obtain db' where
    loop: "import_loop dst defaultTTL (z_RRSets src) ?tx = Inr db'"
    and wf': "wf_store db'"
    and view: "zone_view db' ?zid = zone_view ?tx ?zid ++ map_of (rev entries)"
    and unt: "\<forall>row \<in> set (rr_sets ?tx).
           rs_ZoneID row \<noteq> ?zid \<or> rrset_key row \<notin> fst ` set entries
           \<longrightarrow> untouched ?tx db' row"
    unfolding keys by blast
  have ok: "ImportJSON db dst src mode defaultTTL = (None, db')"
    unfolding ImportJSON_def Transaction_def loop by simp
  have uniq: "unique_index db \<longrightarrow> unique_index db'"
  proof
    assume "unique_index db"
    then have "unique_index ?tx" by (simp add: delete_zone_unique)
    then show "unique_index db'" using import_loop_invariants [OF wftx loop] by blast
  qed
  have other: "\<forall>row \<in> set (rr_sets db). rs_ZoneID row \<noteq> ?zid \<longrightarrow> untouched db db' row"
  proof (intro ballI impI)
    fix row assume row: "row \<in> set (rr_sets db)" and o: "rs_ZoneID row \<noteq> ?zid"
    have 1: "untouched db ?tx row"
      using delete_zone_untouched [OF wf row o] untouched_refl [OF row] by simp
    then have "row \<in> set (rr_sets ?tx)" by (simp add: untouched_def)
    then have "untouched ?tx db' row" using unt o by blast
    with 1 show "untouched db db' row" by (rule untouched_trans)
  qed
  have rep: "mode = ''replace'' \<longrightarrow>
       zone_view db' ?zid = map_of (rev entries)
       \<and> (\<forall>row \<in> set (rr_sets db). rs_ZoneID row = ?zid \<longrightarrow> deleted_rrset db' (rs_ID row))"
  proof (intro impI conjI ballI)
    assume m: "mode = ''replace''"
    show "zone_view db' ?zid = map_of (rev entries)"
      using view m by (simp add: delete_zone_view)
    fix row assume "row \<in> set (rr_sets db)" "rs_ZoneID row = ?zid"
    then have "deleted_rrset ?tx (rs_ID row)"
      using delete_zone_deleted [OF wf] m by simp
    then show "deleted_rrset db' (rs_ID row)"
      using import_loop_invariants [OF wftx loop] by blast
  qed
  have ups: "mode \<noteq> ''replace'' \<longrightarrow>
       zone_view db' ?zid = zone_view db ?zid ++ map_of (rev entries)
       \<and> (\<forall>row \<in> set (rr_sets db).
             rs_ZoneID row = ?zid \<and> rrset_key row \<notin> fst ` set entries
             \<longrightarrow> untouched db db' row)"
  proof (intro impI)
    assume m: "mode \<noteq> ''replace''"
    then have tx: "?tx = db" by simp
    show "zone_view db' ?zid = zone_view db ?zid ++ map_of (rev entries)
       \<and> (\<forall>row \<in> set (rr_sets db).
             rs_ZoneID row = ?zid \<and> rrset_key row \<notin> fst ` set entries
             \<longrightarrow> untouched db db' row)"
      using view unt unfolding tx by blast
  qed
  from ok wf' uniq rep ups other show ?thesis by blast
qed

theorem C3_ImportJSON_replace_upsert_witness:
  "wf_store scenario4_db
   \<and> list_all2 (imports_as scenario4_zone 0) (z_RRSets scenario4_payload) scenario4_entries
   \<and> ImportJSON scenario4_db scenario4_zone scenario4_payload ''replace'' 0
       = (None, scenario4_replaced)
   \<and> zone_view scenario4_replaced (z_ID scenario4_zone) = map_of (rev scenario4_entries)
   \<and> map_of (rev scenario4_entries) (''example4.com.'', ''MX'') = None
   \<and> ImportJSON scenario4_db scenario4_zone scenario4_payload ''upsert'' 0
       = (None, scenario4_upserted)
   \<and> zone_view scenario4_upserted (z_ID scenario4_zone)
       = zone_view scenario4_db (z_ID scenario4_zone) ++ map_of (rev scenario4_entries)
   \<and> zone_view scenario4_db (z_ID scenario4_zone) (''example4.com.'', ''MX'')
       = Some (300, [plain_record ''mail.example4.com.''])"
proof -
  have wf: "wf_store scenario4_db" by code_simp
  have p: "list_all2 (imports_as scenario4_zone 0) (z_RRSets scenario4_payload) scenario4_entries"
    by code_simp
  have r: "ImportJSON scenario4_db scenario4_zone scenario4_payload ''replace'' 0
       = (None, scenario4_replaced)"
    by code_simp
  have u: "ImportJSON scenario4_db scenario4_zone scenario4_payload ''upsert'' 0
       = (None, scenario4_upserted)"
    by code_simp
  have m: "''upsert'' \<noteq> ''replace''" by simp
  from C3_ImportJSON_replace_upsert [OF wf p, of "''replace''"]
  have a: "zone_view scenario4_replaced (z_ID scenario4_zone) = map_of (rev scenario4_entries)"
    unfolding r by blast
  from C3_ImportJSON_replace_upsert [OF wf p, of "''upsert''"]
  have b: "zone_view scenario4_upserted (z_ID scenario4_zone)
       = zone_view scenario4_db (z_ID scenario4_zone) ++ map_of (rev scenario4_entries)"
    unfolding u using m by blast
  have c: "map_of (rev scenario4_entries) (''example4.com.'', ''MX'') = None"
    by code_simp
  have d: "zone_view scenario4_db (z_ID scenario4_zone) (''example4.com.'', ''MX'')
       = Some (300, [plain_record ''mail.example4.com.''])"
    by code_simp
  from wf p r a c u b d show ?thesis by (intro conjI)
qed

section \<open>JSON import: a name outside the zone\<close>

text \<open>
  C8. When the name of an RRSet of the payload, normalized against the name of the
  target zone, is neither the apex of the zone nor below it, \<open>ImportJSON\<close> returns an
  error and the store is as it was before the import, in either mode.
\<close>

theorem C8_ImportJSON_rejects_foreign_name:
  assumes "rs \<in> set (z_RRSets src)"
    and "\<not> in_zone (unchecked_name (rs_Name rs) (z_Name dst)) (z_Name dst)"
  shows "\<exists>err. ImportJSON db dst src mode defaultTTL = (Some err, db)"
proof -
  have "isl (NormalizeRRSetName (rs_Name rs) (z_Name dst))"
    using assms(2) by (simp add: NormalizeRRSetName_unchecked)
  then have "isl (incoming_rrset dst defaultTTL rs)"
    by (auto simp: incoming_rrset_def Let_def split: sum.splits)
  then have "\<exists>r \<in> set (z_RRSets src). isl (incoming_rrset dst defaultTTL r)"
    using assms(1) by blast
  then have "isl (import_loop dst defaultTTL (z_RRSets src)
      (if mode = ''replace'' then delete_zone_rrsets (z_ID dst) db else db))"
    by (rule import_loop_error)
  then show ?thesis
    by (auto simp: ImportJSON_def Transaction_def isl_def)
qed

theorem C8_ImportJSON_rejects_foreign_name_witness:
  "\<not> in_zone (unchecked_name ''www.example.org.'' (z_Name scenario4_zone)) (z_Name scenario4_zone)
   \<and> (\<exists>err. ImportJSON scenario4_db scenario4_zone foreign_payload ''replace'' 0
         = (Some err, scenario4_db))
   \<and> ImportJSON scenario4_db scenario4_zone foreign_payload ''upsert'' 0
       = (Some (NameNotInZone ''www.example.org.'' ''example4.com''), scenario4_db)"
proof -
  let ?rs = "\<lparr>rs_ID = 0, rs_ZoneID = 0, rs_Name = ''www.example.org.'', rs_Type = ''A'',
      rs_TTL = 60, rs_Records = [plain_record ''192.0.2.40'']\<rparr>"
  have m: "?rs \<in> set (z_RRSets foreign_payload)"
    by (simp add: foreign_payload_def)
  have n: "\<not> in_zone (unchecked_name ''www.example.org.'' (z_Name scenario4_zone))
      (z_Name scenario4_zone)"
    by code_simp
  then have n': "\<not> in_zone (unchecked_name (rs_Name ?rs) (z_Name scenario4_zone))
      (z_Name scenario4_zone)"
    by simp
  have a: "\<exists>err. ImportJSON scenario4_db scenario4_zone foreign_payload ''replace'' 0
         = (Some err, scenario4_db)"
    by (rule C8_ImportJSON_rejects_foreign_name [OF m n'])
  have b: "ImportJSON scenario4_db scenario4_zone foreign_payload ''upsert'' 0
       = (Some (NameNotInZone ''www.example.org.'' ''example4.com''), scenario4_db)"
    by code_simp
  from n a b show ?thesis by (intro conjI)
qed

section \<open>The SOA serial\<close>


lemma update_rdata_rr_sets [simp]: "rr_sets (update_rdata_data i d st) = rr_sets st"
  by (simp add: update_rdata_data_def)

lemma records_of_update:
  "records_of (update_rdata_data i d st) rid
     = map (\<lambda>r. if rd_ID r = i then r\<lparr>rd_Data := d\<rparr> else r) (records_of st rid)"
  by (simp add: records_of_def update_rdata_data_def filter_map comp_def if_distrib [of rd_RRSetID]
      cong: if_cong)

lemma find_soa_update:
  "find_soa (update_rdata_data i d st) zid
     = map_option (\<lambda>s. s\<lparr>rs_Records := map (\<lambda>r. if rd_ID r = i then r\<lparr>rd_Data := d\<rparr> else r)
                                          (rs_Records s)\<rparr>) (find_soa st zid)"
  by (cases "find (\<lambda>row. rs_ZoneID row = zid \<and> rs_Type row = ''SOA'') (rr_sets st)")
     (simp_all add: find_soa_def preload_records_def records_of_update)

lemma soa_fields_Some:
  assumes "soa_fields st zid = Some parts"
  obtains s r0 rest where "find_soa st zid = Some s" "rs_ID s \<noteq> 0" "rs_Records s = r0 # rest"
    "parts = Fields (rd_Data r0)"
  using assms by (auto simp: soa_fields_def split: option.splits if_splits list.splits)

lemma soa_fields_update:
  assumes "find_soa st zid = Some s" "rs_ID s \<noteq> 0" "rs_Records s = r0 # rest"
  shows "soa_fields (update_rdata_data (rd_ID r0) d st) zid = Some (Fields d)"
  using assms by (simp add: soa_fields_def find_soa_update)


lemma BumpSOASerialAuto_found:
  assumes "find_soa db (z_ID zone) = Some s" "rs_ID s \<noteq> 0" "rs_Records s = r0 # rest"
  shows "BumpSOASerialAuto db zone auto primary hostmaster now =
     (let parts = Fields (rd_Data r0)
      in if length parts < 7 then db
         else let parts = soa_overrides zone primary hostmaster parts
              in update_rdata_data (rd_ID r0)
                   (Join (parts[2 := bumped_serial (parts ! 2) now]) '' '') db)"
  using assms by (simp add: BumpSOASerialAuto_def soa_overrides_def Let_def)

lemma soa_overrides_props:
  assumes "7 \<le> length parts"
  shows "length (soa_overrides zone primary hostmaster parts) = length parts"
    and "soa_overrides zone primary hostmaster parts ! 2 = parts ! 2"
  using assms by (simp_all add: soa_overrides_def Let_def)

lemma bump_fields:
  assumes f: "soa_fields db (z_ID zone) = Some parts" and l: "7 \<le> length parts"
    and o: "list_all one_field (soa_overrides zone primary hostmaster parts)"
  shows "rr_sets (BumpSOASerialAuto db zone auto primary hostmaster now) = rr_sets db"
    and "soa_fields (BumpSOASerialAuto db zone auto primary hostmaster now) (z_ID zone)
         = Some ((soa_overrides zone primary hostmaster parts)[2 := bumped_serial (parts ! 2) now])"
proof -
  from f obtain s r0 rest where s: "find_soa db (z_ID zone) = Some s" "rs_ID s \<noteq> 0"
    "rs_Records s = r0 # rest" and p: "parts = Fields (rd_Data r0)"
    by (rule soa_fields_Some)
  let ?ps = "soa_overrides zone primary hostmaster parts"
  let ?new = "?ps[2 := bumped_serial (parts ! 2) now]"
  have b: "BumpSOASerialAuto db zone auto primary hostmaster now
      = update_rdata_data (rd_ID r0) (Join ?new '' '') db"
    using l unfolding BumpSOASerialAuto_found [OF s] p [symmetric]
    by (simp add: Let_def soa_overrides_props(2) [OF l])
  have "list_all one_field ?new"
    using o by (intro list_all_update) (simp_all add: one_field_bumped_serial)
  then have fj: "Fields (Join ?new '' '') = ?new" by (rule Fields_Join)
  show "rr_sets (BumpSOASerialAuto db zone auto primary hostmaster now) = rr_sets db"
    unfolding b by simp
  show "soa_fields (BumpSOASerialAuto db zone auto primary hostmaster now) (z_ID zone)
         = Some (?ps[2 := bumped_serial (parts ! 2) now])"
    unfolding b soa_fields_update [OF s] fj ..
qed

lemma bumped_serial_value:
  "ParseInt old = Some n \<Longrightarrow> n < 2 ^ 63 - 1 \<Longrightarrow> - (2 ^ 63) \<le> n
   \<Longrightarrow> ParseInt (bumped_serial old now) = Some (n + 1)"
  by (simp add: bumped_serial_def inc64_def ParseInt_FormatInt)

lemma foldl_digits_nonneg:
  "list_all is_digit ds \<Longrightarrow> 0 \<le> acc \<Longrightarrow> 0 \<le> foldl (\<lambda>acc c. 10 * acc + digit_val c) acc ds"
  by (induction ds arbitrary: acc) (simp_all add: is_digit_def digit_val_def)

lemma digits_val_nonneg: "list_all is_digit ds \<Longrightarrow> 0 \<le> digits_val ds"
  by (simp add: digits_val_def foldl_digits_nonneg)

lemma ParseInt_range:
  assumes "ParseInt s = Some n"
  shows "- (2 ^ 63) \<le> n \<and> n < 2 ^ 63"
proof (cases s)
  case Nil
  then show ?thesis using assms by (simp add: ParseInt_def)
next
  case (Cons c cs)
  define ds where "ds = (if c = CHR ''+'' \<or> c = CHR ''-'' then cs else s)"
  have p: "ParseInt s =
      (if ds = [] \<or> \<not> list_all is_digit ds then None
       else if c \<noteq> CHR ''-'' \<and> digits_val ds \<ge> 2 ^ 63 then None
       else if c = CHR ''-'' \<and> digits_val ds > 2 ^ 63 then None
       else Some (if c = CHR ''-'' then - digits_val ds else digits_val ds))"
    unfolding ParseInt_def Cons ds_def [symmetric] list.case Let_def
    unfolding ds_def Cons by simp
  have d: "list_all is_digit ds" using assms unfolding p by (simp split: if_splits)
  have "0 \<le> digits_val ds" using d by (rule digits_val_nonneg)
  then show ?thesis using assms unfolding p by (auto split: if_splits)
qed


lemma default_soa_data:
  "rs_Records (default_soa zone primary hostmaster now)
     = [(plain_record (Join (default_soa_fields zone primary hostmaster now) '' ''))]"
  by (simp add: default_soa_def default_soa_fields_def plain_record_def Let_def)

lemma default_soa_row:
  "rs_ZoneID (default_soa zone primary hostmaster now) = z_ID zone"
  "rs_Type (default_soa zone primary hostmaster now) = ''SOA''"
  "rs_TTL (default_soa zone primary hostmaster now) = 3600"
  "rs_Name (default_soa zone primary hostmaster now) = TrimSuffix (ToLower (z_Name zone)) ''.'' @ ''.''"
  by (simp_all add: default_soa_def Let_def)

lemma one_field_literals:
  "one_field ''7200''" "one_field ''3600''" "one_field ''1209600''" "one_field ''300''"
  by (simp_all add: one_field_def is_space_def)

lemma bump_creates:
  assumes wf: "wf_store db" and pos: "0 < next_rrset_id db"
    and none: "soa_rows db (z_ID zone) = []"
    and o: "list_all one_field (default_soa_fields zone primary hostmaster now)"
  shows "\<exists>row. rr_sets (BumpSOASerialAuto db zone True primary hostmaster now) = rr_sets db @ [row]
           \<and> row_key row = (z_ID zone, TrimSuffix (ToLower (z_Name zone)) ''.'' @ ''.'', ''SOA'')
           \<and> rs_TTL row = 3600"
    and "soa_fields (BumpSOASerialAuto db zone True primary hostmaster now) (z_ID zone)
           = Some (default_soa_fields zone primary hostmaster now)"
proof -
  let ?zid = "z_ID zone"
  let ?soa = "default_soa zone primary hostmaster now"
  let ?P = "\<lambda>row. rs_ZoneID row = ?zid \<and> rs_Type row = ''SOA''"
  have nP: "\<not> ?P row" if "row \<in> set (rr_sets db)" for row
    using none that unfolding soa_rows_def filter_empty_conv by blast
  have f0: "find ?P (rr_sets db) = None"
    using nP by (simp add: find_None_iff)
  then have fs: "find_soa db ?zid = None" by (simp add: find_soa_def)
  have "first_rrset db (rs_ZoneID ?soa) (rs_Name ?soa) (rs_Type ?soa) = None"
    unfolding first_rrset_def default_soa_row using nP by (auto simp: find_None_iff)
  then obtain c db' where c: "create_rrset ?soa db = Inr (c, db')"
    using create_rrset_None by blast
  have b: "BumpSOASerialAuto db zone True primary hostmaster now = db'"
    using fs c by (simp add: BumpSOASerialAuto_def)
  let ?new = "?soa\<lparr>rs_ID := next_rrset_id db, rs_Records := []\<rparr>"
  have rows: "rr_sets db' = rr_sets db @ [?new]" by (rule create_rr_sets(1) [OF c])
  show "\<exists>row. rr_sets (BumpSOASerialAuto db zone True primary hostmaster now) = rr_sets db @ [row]
           \<and> row_key row = (z_ID zone, TrimSuffix (ToLower (z_Name zone)) ''.'' @ ''.'', ''SOA'')
           \<and> rs_TTL row = 3600"
    unfolding b rows by (simp add: row_key_def default_soa_row)
  have "map strip_ids (records_of db' (next_rrset_id db)) = map strip_ids (rs_Records ?soa)"
    by (rule create_records_new [OF wf c])
  then obtain x where x: "records_of db' (next_rrset_id db) = [x]"
    and "strip_ids x = strip_ids (plain_record (Join (default_soa_fields zone primary hostmaster now) '' ''))"
    unfolding default_soa_data by auto
  then have xd: "rd_Data x = Join (default_soa_fields zone primary hostmaster now) '' ''"
    by (auto simp: strip_ids_def plain_record_def dest: arg_cong [where f = rd_Data])
  have "find ?P (rr_sets db') = Some ?new"
    unfolding rows find_append_one f0 by (simp add: default_soa_row)
  then have "soa_fields db' ?zid = Some (Fields (rd_Data x))"
    using pos x by (simp add: soa_fields_def find_soa_def preload_records_def)
  then show "soa_fields (BumpSOASerialAuto db zone True primary hostmaster now) (z_ID zone)
           = Some (default_soa_fields zone primary hostmaster now)"
    unfolding b xd Fields_Join [OF o] .
qed

lemma BumpSOASerial_eq:
  "BumpSOASerial db zoneID now =
     (case soa_fields db zoneID of
        None \<Rightarrow> db
      | Some parts \<Rightarrow>
          if length parts < 7 then db
          else BumpSOASerialAuto db \<lparr>z_ID = zoneID, z_Name = [], z_RRSets = []\<rparr> False [] [] now)"
  by (auto simp: BumpSOASerial_def BumpSOASerialAuto_def soa_fields_def Let_def
      split: option.splits list.splits)


section \<open>Writes that leave the SOA RRSets alone\<close>

lemma find_filter: "find P xs = (case filter P xs of [] \<Rightarrow> None | x # rest \<Rightarrow> Some x)"
  by (induction xs) auto

lemma soa_rows_mem:
  "row \<in> set (soa_rows st zid)
     \<longleftrightarrow> row \<in> set (rr_sets st) \<and> rs_ZoneID row = zid \<and> rs_Type row = ''SOA''"
  by (auto simp: soa_rows_def)

lemma kept_find_soa:
  assumes "soa_kept st st' zid"
  shows "find_soa st' zid = find_soa st zid"
proof -
  let ?P = "\<lambda>row. rs_ZoneID row = zid \<and> rs_Type row = ''SOA''"
  from assms have rows: "filter ?P (rr_sets st') = filter ?P (rr_sets st)"
    and recs: "\<And>row. row \<in> set (filter ?P (rr_sets st))
         \<Longrightarrow> records_of st' (rs_ID row) = records_of st (rs_ID row)"
    by (simp_all add: soa_kept_def soa_rows_def list_all_iff)
  show ?thesis
  proof (cases "filter ?P (rr_sets st)")
    case Nil
    then show ?thesis
      unfolding find_soa_def find_filter [of ?P] rows by simp
  next
    case (Cons row rest)
    then have "row \<in> set (filter ?P (rr_sets st))" by simp
    then have "records_of st' (rs_ID row) = records_of st (rs_ID row)" by (rule recs)
    then show ?thesis
      unfolding find_soa_def find_filter [of ?P] rows Cons by (simp add: preload_records_def)
  qed
qed

lemma kept_fields:
  assumes "soa_kept st st' zid"
  shows "soa_fields st' zid = soa_fields st zid"
  unfolding soa_fields_def kept_find_soa [OF assms] ..

lemma kept_refl: "soa_kept st st zid"
  by (simp add: soa_kept_def list_all_iff)

lemma kept_trans:
  assumes "soa_kept a b zid" and "soa_kept b c zid"
  shows "soa_kept a c zid"
  using assms by (simp add: soa_kept_def list_all_iff)

lemma create_kept:
  assumes wf: "wf_store tx" and c: "create_rrset rs tx = Inr (created, tx')"
    and t: "rs_Type rs \<noteq> ''SOA''"
  shows "soa_kept tx tx' zid"
proof -
  have rows: "soa_rows tx' zid = soa_rows tx zid"
    unfolding soa_rows_def create_rr_sets(1) [OF c] using t by simp
  have "records_of tx' (rs_ID row) = records_of tx (rs_ID row)"
    if "row \<in> set (soa_rows tx zid)" for row
  proof -
    from that have "row \<in> set (rr_sets tx)" by (simp add: soa_rows_mem)
    then have "rs_ID row \<noteq> next_rrset_id tx" using wf_storeD(2) [OF wf] by fastforce
    then show ?thesis by (rule create_records_old [OF c])
  qed
  then show ?thesis
    unfolding soa_kept_def rows by (simp add: list_all_iff)
qed

lemma filter_map_same:
  assumes "\<And>x. x \<in> set xs \<Longrightarrow> P (f x) = P x" and "\<And>x. x \<in> set xs \<Longrightarrow> P x \<Longrightarrow> f x = x"
  shows "filter P (map f xs) = filter P xs"
  using assms by (induction xs) auto

lemma save_kept:
  assumes wf: "wf_store tx" and e0: "e0 \<in> set (rr_sets tx)" and i: "rs_ID e = rs_ID e0"
    and t0: "rs_Type e0 \<noteq> ''SOA''" and t: "rs_Type e \<noteq> ''SOA''"
  shows "soa_kept tx (save_rrset e (delete_records_of (rs_ID e) tx)) zid"
proof -
  let ?tx' = "save_rrset e (delete_records_of (rs_ID e) tx)"
  let ?P = "\<lambda>row. rs_ZoneID row = zid \<and> rs_Type row = ''SOA''"
  let ?f = "\<lambda>row. if rs_ID row = rs_ID e then e\<lparr>rs_Records := []\<rparr> else row"
  have same: "row = e0" if "row \<in> set (rr_sets tx)" "rs_ID row = rs_ID e" for row
    using distinct_ids_eq [OF wf_storeD(1) [OF wf] that(1) e0] that(2) i by simp
  have r: "rr_sets ?tx' = map ?f (rr_sets tx)"
    unfolding save_rr_sets by (simp add: delete_records_of_def)
  have rows: "soa_rows ?tx' zid = soa_rows tx zid"
    unfolding soa_rows_def r
  proof (rule filter_map_same)
    fix x assume x: "x \<in> set (rr_sets tx)"
    show "?P (?f x) = ?P x" using same [OF x] t0 t by auto
    assume "?P x"
    then show "?f x = x" using same [OF x] t0 by auto
  qed
  have "records_of ?tx' (rs_ID row) = records_of tx (rs_ID row)"
    if "row \<in> set (soa_rows tx zid)" for row
  proof -
    from that have m: "row \<in> set (rr_sets tx)" and s: "rs_Type row = ''SOA''"
      by (simp_all add: soa_rows_mem)
    have ne: "rs_ID row \<noteq> rs_ID e" using same [OF m] s t0 by auto
    show ?thesis
      unfolding save_rrset_def using ne by (simp add: insert_records_other records_of_delete)
  qed
  then show ?thesis
    unfolding soa_kept_def rows by (simp add: list_all_iff)
qed

lemma delete_rrset_kept:
  assumes "\<And>row. row \<in> set (rr_sets tx) \<Longrightarrow> rs_ZoneID row = zid \<Longrightarrow> Some (rs_ID row) = rid
             \<Longrightarrow> rs_Type row \<noteq> ''SOA''"
  shows "soa_kept tx (delete_rrset zid rid tx) zid"
proof -
  have "filter (\<lambda>row. rs_ZoneID row = zid \<and> rs_Type row = ''SOA'')
          (filter (\<lambda>row. \<not> (rs_ZoneID row = zid \<and> Some (rs_ID row) = rid)) (rr_sets tx))
        = filter (\<lambda>row. rs_ZoneID row = zid \<and> rs_Type row = ''SOA'') (rr_sets tx)"
    unfolding filter_filter by (rule filter_cong [OF refl]) (use assms in blast)
  then have rows: "soa_rows (delete_rrset zid rid tx) zid = soa_rows tx zid"
    by (simp add: soa_rows_def delete_rrset_def)
  have "records_of (delete_rrset zid rid tx) i = records_of tx i" for i
    by (simp add: records_of_def delete_rrset_def)
  then show ?thesis
    unfolding soa_kept_def rows by (simp add: list_all_iff)
qed


section \<open>The bump after a write\<close>

lemma soa_rows_append:
  "rr_sets st' = rr_sets st @ [row] \<Longrightarrow> row_key row = (zid, n, ''SOA'')
   \<Longrightarrow> soa_rows st' zid = soa_rows st zid @ [row]"
  by (simp add: soa_rows_def row_key_def)

lemma ImportJSON_None:
  assumes "ImportJSON db dst src mode d = (None, db')"
  shows "import_loop dst d (z_RRSets src)
           (if mode = ''replace'' then delete_zone_rrsets (z_ID dst) db else db) = Inr db'"
  using assms by (auto simp: ImportJSON_def Transaction_def split: sum.splits)

lemma save_wf_id:
  assumes wf: "wf_store tx" and e0: "e0 \<in> set (rr_sets tx)" and i: "rs_ID e = rs_ID e0"
  shows "wf_store (save_rrset e (delete_records_of (rs_ID e) tx))"
proof -
  let ?d = "delete_records_of (rs_ID e) tx"
  have lt: "rs_ID e < next_rrset_id ?d"
    using wf_storeD(2) [OF wf e0] i by (simp add: delete_records_of_def)
  have d: "list_all (\<lambda>r. rd_RRSetID r < next_rrset_id ?d) (r_data ?d)"
    using wf_storeD(3) [OF wf] by (simp add: delete_records_of_def list_all_iff)
  have ids: "map rs_ID (rr_sets (save_rrset e ?d)) = map rs_ID (rr_sets tx)"
    unfolding save_rr_sets by (simp add: map_update_ids delete_records_of_def)
  have a: "distinct (map rs_ID (rr_sets (save_rrset e ?d)))"
    unfolding ids using wf_storeD(1) [OF wf] .
  have "list_all (\<lambda>i. i < next_rrset_id tx) (map rs_ID (rr_sets tx))"
    using wf_storeD(2) [OF wf] by (simp add: list_all_iff)
  then have "list_all (\<lambda>i. i < next_rrset_id tx) (map rs_ID (rr_sets (save_rrset e ?d)))"
    unfolding ids .
  then have b: "list_all (\<lambda>row. rs_ID row < next_rrset_id (save_rrset e ?d))
                  (rr_sets (save_rrset e ?d))"
    by (simp add: save_next_rrset_id delete_records_of_def list_all_iff)
  have c: "list_all (\<lambda>r. rd_RRSetID r < next_rrset_id (save_rrset e ?d))
             (r_data (save_rrset e ?d))"
    unfolding save_next_rrset_id using d lt by (rule save_rdata_ids)
  show ?thesis unfolding wf_store_def using a b c by (intro conjI)
qed

lemma import_rrset_kept:
  assumes wf: "wf_store tx" and s: "import_rrset dst d r0 tx = Inr tx1"
    and t: "ToUpper (rs_Type r0) \<noteq> ''SOA''"
  shows "soa_kept tx tx1 zid" and "next_rrset_id tx \<le> next_rrset_id tx1"
proof -
  from import_rrset_Inr [OF s] obtain rs where inc: "incoming_rrset dst d r0 = Inr rs" by blast
  have ty: "rs_Type rs \<noteq> ''SOA''"
    using incoming_rrset_Inr(4) [OF inc] t by simp
  have "soa_kept tx tx1 zid \<and> next_rrset_id tx \<le> next_rrset_id tx1"
  proof (cases "first_rrset tx (z_ID dst) (rs_Name rs) (rs_Type rs)")
    case (Some e)
    let ?e = "e\<lparr>rs_TTL := rs_TTL rs, rs_Records := rs_Records rs\<rparr>"
    have tx1: "tx1 = save_rrset ?e (delete_records_of (rs_ID ?e) tx)"
      using s inc Some by (simp add: import_rrset_def)
    have e: "e \<in> set (rr_sets tx)" and et: "rs_Type e = rs_Type rs"
      using first_rrset_Some [OF Some] by simp_all
    have "soa_kept tx tx1 zid"
      unfolding tx1 by (rule save_kept [OF wf e]) (simp_all add: et ty)
    moreover have "next_rrset_id tx1 = next_rrset_id tx"
      unfolding tx1 save_next_rrset_id by (simp add: delete_records_of_def)
    ultimately show ?thesis by simp
  next
    case None
    then obtain c where c: "create_rrset rs tx = Inr (c, tx1)"
      using s inc by (auto simp: import_rrset_def split: sum.splits)
    show ?thesis
      using create_kept [OF wf c ty] create_rr_sets(2) [OF c] by simp
  qed
  then show "soa_kept tx tx1 zid" and "next_rrset_id tx \<le> next_rrset_id tx1" by simp_all
qed

lemma import_loop_kept:
  assumes "wf_store tx" and "import_loop dst d rsets tx = Inr tx'"
    and "\<And>rs. rs \<in> set rsets \<Longrightarrow> ToUpper (rs_Type rs) \<noteq> ''SOA''"
  shows "soa_kept tx tx' zid \<and> next_rrset_id tx \<le> next_rrset_id tx' \<and> wf_store tx'"
  using assms
proof (induction rsets arbitrary: tx)
  case Nil
  then show ?case by (simp add: kept_refl)
next
  case (Cons r0 rest)
  from Cons.prems(2) obtain tx1 where s1: "import_rrset dst d r0 tx = Inr tx1"
    and s2: "import_loop dst d rest tx1 = Inr tx'"
    by (auto split: sum.splits)
  from import_rrset_Inr [OF s1] obtain rs where inc: "incoming_rrset dst d r0 = Inr rs" by blast
  have wf1: "wf_store tx1"
    using import_rrset_step [OF Cons.prems(1) inc] s1 by auto
  have t0: "ToUpper (rs_Type r0) \<noteq> ''SOA''" using Cons.prems(3) by simp
  have k1: "soa_kept tx tx1 zid" "next_rrset_id tx \<le> next_rrset_id tx1"
    by (rule import_rrset_kept [OF Cons.prems(1) s1 t0])+
  have "soa_kept tx1 tx' zid \<and> next_rrset_id tx1 \<le> next_rrset_id tx' \<and> wf_store tx'"
    using Cons.prems(3) by (intro Cons.IH [OF wf1 s2]) simp
  then show ?case
    using k1 kept_trans [of tx tx1 zid tx'] by auto
qed

lemma soa_rows_rr_sets:
  "rr_sets st' = rr_sets st \<Longrightarrow> soa_rows st' zid = soa_rows st zid"
  by (simp add: soa_rows_def)

lemma bump_existing:
  assumes f: "soa_fields db (z_ID zone) = Some parts" and l: "7 \<le> length parts"
    and o: "list_all one_field (soa_overrides zone primary hostmaster parts)"
    and k: "soa_kept db db1 (z_ID zone)"
  shows "soa_rows (BumpSOASerialAuto db1 zone auto primary hostmaster now) (z_ID zone)
           = soa_rows db (z_ID zone)"
    and "soa_fields (BumpSOASerialAuto db1 zone auto primary hostmaster now) (z_ID zone)
           = Some ((soa_overrides zone primary hostmaster parts)[2 := bumped_serial (parts ! 2) now])"
proof -
  have f1: "soa_fields db1 (z_ID zone) = Some parts"
    unfolding kept_fields [OF k] by (rule f)
  have "soa_rows (BumpSOASerialAuto db1 zone auto primary hostmaster now) (z_ID zone)
           = soa_rows db1 (z_ID zone)"
    by (rule soa_rows_rr_sets [OF bump_fields(1) [OF f1 l o]])
  then show "soa_rows (BumpSOASerialAuto db1 zone auto primary hostmaster now) (z_ID zone)
           = soa_rows db (z_ID zone)"
    using k by (simp add: soa_kept_def)
  show "soa_fields (BumpSOASerialAuto db1 zone auto primary hostmaster now) (z_ID zone)
           = Some ((soa_overrides zone primary hostmaster parts)[2 := bumped_serial (parts ! 2) now])"
    by (rule bump_fields(2) [OF f1 l o])
qed

lemma bump_missing:
  assumes wf: "wf_store db1" and pos: "0 < next_rrset_id db1"
    and none: "soa_rows db1 (z_ID zone) = []"
    and o: "list_all one_field (default_soa_fields zone primary hostmaster now)"
  shows "\<exists>row. soa_rows (BumpSOASerialAuto db1 zone True primary hostmaster now) (z_ID zone) = [row]
           \<and> rs_Name row = TrimSuffix (ToLower (z_Name zone)) ''.'' @ ''.''
           \<and> rs_TTL row = 3600"
    and "soa_fields (BumpSOASerialAuto db1 zone True primary hostmaster now) (z_ID zone)
           = Some (default_soa_fields zone primary hostmaster now)"
proof -
  from bump_creates(1) [OF wf pos none o] obtain row where
    rows: "rr_sets (BumpSOASerialAuto db1 zone True primary hostmaster now) = rr_sets db1 @ [row]"
    and key: "row_key row = (z_ID zone, TrimSuffix (ToLower (z_Name zone)) ''.'' @ ''.'', ''SOA'')"
    and ttl: "rs_TTL row = 3600"
    by blast
  have "soa_rows (BumpSOASerialAuto db1 zone True primary hostmaster now) (z_ID zone) = [row]"
    unfolding soa_rows_append [OF rows key] none by simp
  moreover have "rs_Name row = TrimSuffix (ToLower (z_Name zone)) ''.'' @ ''.''"
    using key by (simp add: row_key_def)
  ultimately show "\<exists>row. soa_rows (BumpSOASerialAuto db1 zone True primary hostmaster now) (z_ID zone)
             = [row]
           \<and> rs_Name row = TrimSuffix (ToLower (z_Name zone)) ''.'' @ ''.''
           \<and> rs_TTL row = 3600"
    using ttl by blast
  show "soa_fields (BumpSOASerialAuto db1 zone True primary hostmaster now) (z_ID zone)
           = Some (default_soa_fields zone primary hostmaster now)"
    by (rule bump_creates(2) [OF wf pos none o])
qed

lemma serial_after:
  assumes f: "soa_fields db zid = Some parts" and l: "7 \<le> length parts"
    and f': "soa_fields db' zid = Some (ov[2 := bumped_serial (parts ! 2) now])"
    and len: "length ov = length parts"
  shows "\<forall>n. ParseInt (parts ! 2) = Some n \<and> n < 2 ^ 63 - 1 \<longrightarrow>
           soa_serial db zid = Some n \<and> soa_serial db' zid = Some (n + 1)"
    and "ParseInt (parts ! 2) = None \<and> - (2 ^ 63) \<le> now \<and> now < 2 ^ 63 \<longrightarrow>
           soa_serial db' zid = Some now"
proof -
  have ser: "soa_serial db' zid = ParseInt (bumped_serial (parts ! 2) now)"
    unfolding soa_serial_def f' using l len by simp
  have ser0: "soa_serial db zid = ParseInt (parts ! 2)"
    unfolding soa_serial_def f using l by simp
  show "\<forall>n. ParseInt (parts ! 2) = Some n \<and> n < 2 ^ 63 - 1 \<longrightarrow>
           soa_serial db zid = Some n \<and> soa_serial db' zid = Some (n + 1)"
  proof (intro allI impI)
    fix n assume n: "ParseInt (parts ! 2) = Some n \<and> n < 2 ^ 63 - 1"
    then show "soa_serial db zid = Some n \<and> soa_serial db' zid = Some (n + 1)"
      unfolding ser ser0 using ParseInt_range [of "parts ! 2" n]
      by (simp add: bumped_serial_value)
  qed
  show "ParseInt (parts ! 2) = None \<and> - (2 ^ 63) \<le> now \<and> now < 2 ^ 63 \<longrightarrow>
           soa_serial db' zid = Some now"
    unfolding ser by (simp add: bumped_serial_def ParseInt_FormatInt)
qed

lemma soa_fields_one_field:
  assumes "soa_fields db zid = Some parts"
  shows "list_all one_field parts"
proof -
  from assms obtain s r0 rest where "find_soa db zid = Some s" "rs_ID s \<noteq> 0"
    "rs_Records s = r0 # rest" and p: "parts = Fields (rd_Data r0)"
    by (rule soa_fields_Some)
  show ?thesis unfolding p by (rule Fields_all_one_field)
qed

lemma soa_overrides_none: "soa_overrides zone [] [] parts = parts"
  by (simp add: soa_overrides_def Let_def)

lemma bump_plain_existing:
  assumes f: "soa_fields db zid = Some parts" and l: "7 \<le> length parts"
    and k: "soa_kept db db1 zid"
  shows "soa_rows (BumpSOASerial db1 zid now) zid = soa_rows db zid"
    and "soa_fields (BumpSOASerial db1 zid now) zid
           = Some (parts[2 := bumped_serial (parts ! 2) now])"
proof -
  let ?z = "\<lparr>z_ID = zid, z_Name = [], z_RRSets = []\<rparr>"
  have f1: "soa_fields db1 zid = Some parts"
    unfolding kept_fields [OF k] by (rule f)
  have b: "BumpSOASerial db1 zid now = BumpSOASerialAuto db1 ?z False [] [] now"
    unfolding BumpSOASerial_eq f1 using l by simp
  have f0: "soa_fields db (z_ID ?z) = Some parts" using f by simp
  have o: "list_all one_field (soa_overrides ?z [] [] parts)"
    unfolding soa_overrides_none by (rule soa_fields_one_field [OF f])
  have k0: "soa_kept db db1 (z_ID ?z)" using k by simp
  show "soa_rows (BumpSOASerial db1 zid now) zid = soa_rows db zid"
    unfolding b using bump_existing(1) [OF f0 l o k0] by simp
  show "soa_fields (BumpSOASerial db1 zid now) zid
           = Some (parts[2 := bumped_serial (parts ! 2) now])"
    unfolding b using bump_existing(2) [OF f0 l o k0] by (simp add: soa_overrides_none)
qed

section \<open>Applying a template twice\<close>

lemma apply_template_record_cases:
  "apply_template_record zid domain db tplRec =
     (let name = template_rrset_name domain tplRec;
          data = ReplaceAll (tr_Data tplRec) ''{domain}'' domain;
          record = \<lambda>rid. \<lparr>rd_ID = 0, rd_RRSetID = rid, rd_Data = data,
                rd_Country = tr_Country tplRec, rd_Continent = tr_Continent tplRec,
                rd_ASN = tr_ASN tplRec, rd_Subnet = tr_Subnet tplRec\<rparr>
      in case first_rrset db zid name (tr_Type tplRec) of
           Some rrset \<Rightarrow> create_rdata (record (rs_ID rrset)) db
         | None \<Rightarrow>
             create_rdata (record (next_rrset_id db))
               (db\<lparr>rr_sets := rr_sets db @ [\<lparr>rs_ID = next_rrset_id db, rs_ZoneID = zid,
                      rs_Name = name, rs_Type = tr_Type tplRec, rs_TTL = tr_TTL tplRec,
                      rs_Records = []\<rparr>],
                   next_rrset_id := Suc (next_rrset_id db)\<rparr>))"
  by (simp add: apply_template_record_def template_rrset_name_def create_rrset_def Let_def
      split: option.splits)

lemma first_rrset_append:
  "first_rrset st zid n t \<noteq> None \<Longrightarrow> rr_sets st' = rr_sets st @ extra
   \<Longrightarrow> first_rrset st' zid n t \<noteq> None"
  by (auto simp: first_rrset_def find_None_iff)

lemma first_rrset_create_rdata [simp]:
  "first_rrset (create_rdata r st) zid n t = first_rrset st zid n t"
  by (simp add: first_rrset_def create_rdata_def)

lemma apply_record_facts:
  fixes zid domain db tplRec
  defines "db' \<equiv> apply_template_record zid domain db tplRec"
  shows "first_rrset db zid (template_rrset_name domain tplRec) (tr_Type tplRec) \<noteq> None
           \<Longrightarrow> rr_sets db' = rr_sets db"
    and "\<exists>extra. rr_sets db' = rr_sets db @ extra"
    and "\<exists>new. r_data db' = r_data db @ [new]"
    and "zones db' = zones db" and "templates db' = templates db"
    and "template_records db' = template_records db"
  unfolding db'_def apply_template_record_cases
  by (auto simp: Let_def create_rdata_def split: option.splits)

lemma apply_record_present:
  "first_rrset (apply_template_record zid domain db tplRec) zid
     (template_rrset_name domain tplRec) (tr_Type tplRec) \<noteq> None"
proof (cases "first_rrset db zid (template_rrset_name domain tplRec) (tr_Type tplRec)")
  case None
  then have "find (\<lambda>row. rs_ZoneID row = zid \<and> rs_Name row = template_rrset_name domain tplRec
      \<and> rs_Type row = tr_Type tplRec) (rr_sets db) = None"
    by (simp add: first_rrset_def)
  then show ?thesis
    using None unfolding apply_template_record_cases
    by (simp add: Let_def) (simp add: first_rrset_def find_append_one)
next
  case (Some r)
  then show ?thesis
    unfolding apply_template_record_cases by (simp add: Let_def)
qed

lemma apply_loop_facts:
  fixes zid domain
  defines "step \<equiv> apply_template_record zid domain"
  shows "(\<exists>extra. rr_sets (foldl step db recs) = rr_sets db @ extra)
     \<and> (\<exists>news. r_data (foldl step db recs) = r_data db @ news \<and> length news = length recs)
     \<and> zones (foldl step db recs) = zones db
     \<and> templates (foldl step db recs) = templates db
     \<and> template_records (foldl step db recs) = template_records db"
proof (induction recs arbitrary: db)
  case Nil
  then show ?case by simp
next
  case (Cons r recs)
  let ?db1 = "step db r"
  from apply_record_facts(2,3,4,5,6) [of zid domain db r]
  obtain extra new where 1: "rr_sets ?db1 = rr_sets db @ extra" "r_data ?db1 = r_data db @ [new]"
    "zones ?db1 = zones db" "templates ?db1 = templates db"
    "template_records ?db1 = template_records db"
    unfolding step_def by blast
  from Cons.IH [of ?db1] obtain extra' news where
    2: "rr_sets (foldl step ?db1 recs) = rr_sets ?db1 @ extra'"
      "r_data (foldl step ?db1 recs) = r_data ?db1 @ news" "length news = length recs"
      "zones (foldl step ?db1 recs) = zones ?db1" "templates (foldl step ?db1 recs) = templates ?db1"
      "template_records (foldl step ?db1 recs) = template_records ?db1"
    by blast
  have a: "rr_sets (foldl step db (r # recs)) = rr_sets db @ (extra @ extra')"
    using 1 2 by simp
  have b: "r_data (foldl step db (r # recs)) = r_data db @ (new # news)
      \<and> length (new # news) = length (r # recs)"
    using 1 2 by simp
  have c: "\<exists>extra. rr_sets (foldl step db (r # recs)) = rr_sets db @ extra"
    using a by blast
  have d: "\<exists>news. r_data (foldl step db (r # recs)) = r_data db @ news
      \<and> length news = length (r # recs)"
    using b by blast
  have e: "zones (foldl step db (r # recs)) = zones db"
    "templates (foldl step db (r # recs)) = templates db"
    "template_records (foldl step db (r # recs)) = template_records db"
    using 1 2 by simp_all
  from c d e show ?case by (intro conjI)
qed

lemma apply_loop_present:
  fixes zid domain
  defines "step \<equiv> apply_template_record zid domain"
  shows "\<forall>r \<in> set recs.
           first_rrset (foldl step db recs) zid (template_rrset_name domain r) (tr_Type r) \<noteq> None"
proof (induction recs arbitrary: db)
  case Nil
  then show ?case by simp
next
  case (Cons r recs)
  let ?db1 = "step db r"
  have p: "first_rrset ?db1 zid (template_rrset_name domain r) (tr_Type r) \<noteq> None"
    unfolding step_def by (rule apply_record_present)
  obtain extra where "rr_sets (foldl step ?db1 recs) = rr_sets ?db1 @ extra"
    using apply_loop_facts [of zid domain ?db1 recs] unfolding step_def by blast
  from first_rrset_append [OF p this]
  have "first_rrset (foldl step ?db1 recs) zid (template_rrset_name domain r) (tr_Type r) \<noteq> None" .
  then show ?case using Cons.IH [of ?db1] by simp
qed

lemma apply_loop_again:
  fixes zid domain
  defines "step \<equiv> apply_template_record zid domain"
  assumes "\<forall>r \<in> set recs. first_rrset db zid (template_rrset_name domain r) (tr_Type r) \<noteq> None"
  shows "rr_sets (foldl step db recs) = rr_sets db"
  using assms(2)
proof (induction recs arbitrary: db)
  case Nil
  then show ?case by simp
next
  case (Cons r recs)
  let ?db1 = "step db r"
  have same: "rr_sets ?db1 = rr_sets db"
    unfolding step_def using Cons.prems by (intro apply_record_facts(1)) simp
  then have "\<forall>r \<in> set recs.
      first_rrset ?db1 zid (template_rrset_name domain r) (tr_Type r) \<noteq> None"
    using Cons.prems by (simp add: first_rrset_def)
  from Cons.IH [OF this] show ?case using same by simp
qed


lemma applyTemplate_200:
  assumes "applyTemplate db (Some tid) (Some zid) = (200, db1)"
  obtains template zone where "first_template db tid = Some template"
    "first_zone db zid = Some zone"
    "db1 = foldl (apply_template_record zid (TrimSuffix (z_Name zone) ''.'')) db (t_Records template)"
  using assms by (auto simp: applyTemplate_def split: option.splits)

text \<open>
  C9 (as amended). When a template has been applied to a zone, applying it again finds
  the RRSet of every template record and creates no RRSet; it adds one more record row
  for every record of the template to the rows that are there.
\<close>

theorem C9_applyTemplate_twice:
  assumes "applyTemplate db (Some tid) (Some zid) = (200, db1)"
  shows "\<exists>template db2. first_template db tid = Some template
      \<and> applyTemplate db1 (Some tid) (Some zid) = (200, db2)
      \<and> rr_sets db2 = rr_sets db1
      \<and> (\<exists>news. r_data db2 = r_data db1 @ news \<and> length news = length (t_Records template))"
proof -
  from assms obtain template zone where t: "first_template db tid = Some template"
    and z: "first_zone db zid = Some zone"
    and db1: "db1 = foldl (apply_template_record zid (TrimSuffix (z_Name zone) ''.'')) db
        (t_Records template)"
    by (rule applyTemplate_200)
  let ?domain = "TrimSuffix (z_Name zone) ''.''"
  let ?step = "apply_template_record zid ?domain"
  let ?db2 = "foldl ?step db1 (t_Records template)"
  have tabs: "zones db1 = zones db" "templates db1 = templates db"
    "template_records db1 = template_records db"
    unfolding db1 using apply_loop_facts [of zid ?domain db "t_Records template"] by simp_all
  have t1: "first_template db1 tid = Some template"
    using t by (simp add: first_template_def tabs)
  have z1: "first_zone db1 zid = Some zone"
    using z by (simp add: first_zone_def tabs)
  have again: "applyTemplate db1 (Some tid) (Some zid) = (200, ?db2)"
    by (simp add: applyTemplate_def t1 z1)
  have present: "\<forall>r \<in> set (t_Records template).
      first_rrset db1 zid (template_rrset_name ?domain r) (tr_Type r) \<noteq> None"
    unfolding db1 by (rule apply_loop_present)
  have rows: "rr_sets ?db2 = rr_sets db1"
    using present by (rule apply_loop_again)
  have recs: "\<exists>news. r_data ?db2 = r_data db1 @ news \<and> length news = length (t_Records template)"
    using apply_loop_facts [of zid ?domain db1 "t_Records template"] by blast
  from t again rows recs show ?thesis by blast
qed

theorem C9_applyTemplate_twice_witness:
  "applyTemplate template_db (Some 1) (Some 1) = (200, template_db_once)
   \<and> (\<exists>template db2. first_template template_db 1 = Some template
        \<and> applyTemplate template_db_once (Some 1) (Some 1) = (200, db2)
        \<and> rr_sets db2 = rr_sets template_db_once
        \<and> (\<exists>news. r_data db2 = r_data template_db_once @ news
              \<and> length news = length (t_Records template)))"
proof -
  have a: "applyTemplate template_db (Some 1) (Some 1) = (200, template_db_once)"
    by code_simp
  from a C9_applyTemplate_twice [OF a] show ?thesis by (rule conjI)
qed

text \<open>
  C9 as stated fails: the loop of \<open>applyTemplate\<close> creates a record row for every
  template record, whether it has found the RRSet or created it. A template with one
  record leaves one record row behind when applied once and two when applied twice.
\<close>

theorem C9_second_application_adds_records:
  "applyTemplate template_db (Some 1) (Some 1) = (200, template_db_once)
   \<and> applyTemplate template_db_once (Some 1) (Some 1) = (200, template_db_twice)
   \<and> length (r_data template_db_once) = 1
   \<and> length (r_data template_db_twice) = 2
   \<and> records_of template_db_twice 1
       = [(plain_record ''192.0.2.1'')\<lparr>rd_ID := 1, rd_RRSetID := 1\<rparr>,
          (plain_record ''192.0.2.1'')\<lparr>rd_ID := 2, rd_RRSetID := 1\<rparr>]"
proof -
  have a: "applyTemplate template_db (Some 1) (Some 1) = (200, template_db_once)"
    by code_simp
  have b: "applyTemplate template_db_once (Some 1) (Some 1) = (200, template_db_twice)"
    by code_simp
  have c: "length (r_data template_db_once) = 1" by code_simp
  have d: "length (r_data template_db_twice) = 2" by code_simp
  have e: "records_of template_db_twice 1
       = [(plain_record ''192.0.2.1'')\<lparr>rd_ID := 1, rd_RRSetID := 1\<rparr>,
          (plain_record ''192.0.2.1'')\<lparr>rd_ID := 2, rd_RRSetID := 1\<rparr>]"
    by code_simp
  from a b c d e show ?thesis by (intro conjI)
qed

section \<open>The DNS server\<close>


lemma lookup_zones_cfg_cache:
  "srv_cfg (snd (lookup_zones s db now)) = srv_cfg s"
  "srv_cache (snd (lookup_zones s db now)) = srv_cache s"
  by (simp_all add: lookup_zones_def Let_def split: option.splits)

lemma lookup_in_zone_cfg_cache:
  "srv_cfg (snd (lookup_in_zone lib s db qname qtype zone cip)) = srv_cfg s"
  "srv_cache (snd (lookup_in_zone lib s db qname qtype zone cip)) = srv_cache s"
  by (simp_all add: lookup_in_zone_def Let_def split_beta split: option.splits)

lemma lookup_cfg_cache:
  "srv_cfg (snd (lookup lib s db now q cip)) = srv_cfg s"
  "srv_cache (snd (lookup lib s db now q cip)) = srv_cache s"
proof -
  obtain zs s1 where z: "lookup_zones s db now = (zs, s1)" by (cases "lookup_zones s db now")
  have s1: "srv_cfg s1 = srv_cfg s" "srv_cache s1 = srv_cache s"
    using lookup_zones_cfg_cache [of s db now] z by simp_all
  show "srv_cfg (snd (lookup lib s db now q cip)) = srv_cfg s"
    unfolding lookup_def Let_def z
    by (cases "select_zone zs (ToLower (Fqdn (q_Name q)))")
       (simp_all add: s1 lookup_in_zone_cfg_cache)
  show "srv_cache (snd (lookup lib s db now q cip)) = srv_cache s"
    unfolding lookup_def Let_def z
    by (cases "select_zone zs (ToLower (Fqdn (q_Name q)))")
       (simp_all add: s1 lookup_in_zone_cfg_cache)
qed

lemma lookup_NoZone:
  assumes "select_zone (fst (lookup_zones s db now)) (ToLower (Fqdn (q_Name q))) = None"
  shows "fst (lookup lib s db now q cip) = Inl NoZone"
proof -
  obtain zs s1 where z: "lookup_zones s db now = (zs, s1)" by (cases "lookup_zones s db now")
  show ?thesis
    using assms unfolding lookup_def Let_def z by simp
qed

lemma cache_Get_Set:
  assumes "c_size c \<noteq> 0"
  shows "cache_Get (cache_Set c now key m ttl) t key = (if t < now + ttl then Some m else None)"
proof -
  define others where "others = filter (\<lambda>e. fst e \<noteq> key) (c_entries c)"
  define kept where "kept = (if int (length others) \<ge> c_size c then drop 1 others else others)"
  have "set kept \<subseteq> set others"
    unfolding kept_def using set_drop_subset [of 1 others] by (simp only: split: if_split) blast
  moreover have "\<forall>e \<in> set others. fst e \<noteq> key"
    unfolding others_def by simp
  ultimately have "\<forall>e \<in> set kept. fst e \<noteq> key"
    by blast
  then have "find (\<lambda>e. fst e = key) kept = None"
    unfolding find_None_iff by blast
  then have f: "find (\<lambda>e. fst e = key) (kept @ [(key, m, now + ttl)]) = Some (key, m, now + ttl)"
    by (simp add: find_append_one)
  have "cache_Set c now key m ttl = c\<lparr>c_entries := kept @ [(key, m, now + ttl)]\<rparr>"
    using assms unfolding cache_Set_def Let_def kept_def others_def by (simp only: if_False)
  then show ?thesis
    unfolding cache_Get_def using f by simp
qed
lemma unanswered_NoZone:
  assumes "select_zone (fst (lookup_zones s db now)) (ToLower (Fqdn (q_Name q))) = None
           \<or> unanswered (fst (lookup lib s db now q cip))"
  shows "unanswered (fst (lookup lib s db now q cip))"
  using assms lookup_NoZone [of s db now q lib cip] by (auto simp: unanswered_def)

lemma serveDNS_unanswered:
  assumes q: "m_Question (req_Msg r) = q0 # rest"
    and miss: "cache_Get (srv_cache s) now
                 (cache_key lib (q0\<lparr>q_Name := ToLower (q_Name q0)\<rparr>)
                    (clientIPFrom r (geo_UseECS (cfg_GeoIP (srv_cfg s))))) = None"
    and un: "unanswered (fst (lookup lib s db now (q0\<lparr>q_Name := ToLower (q_Name q0)\<rparr>)
                    (clientIPFrom r (geo_UseECS (cfg_GeoIP (srv_cfg s))))))"
  shows "serveDNS lib s db now r =
           serve_unanswered lib
             (snd (lookup lib s db now (q0\<lparr>q_Name := ToLower (q_Name q0)\<rparr>)
                    (clientIPFrom r (geo_UseECS (cfg_GeoIP (srv_cfg s))))))
             now (req_Msg r) ((SetReply (req_Msg r))\<lparr>m_Authoritative := True\<rparr>)
             (q0\<lparr>q_Name := ToLower (q_Name q0)\<rparr>)
             (cache_key lib (q0\<lparr>q_Name := ToLower (q_Name q0)\<rparr>)
                (clientIPFrom r (geo_UseECS (cfg_GeoIP (srv_cfg s)))))"
proof -
  define q where "q = q0\<lparr>q_Name := ToLower (q_Name q0)\<rparr>"
  define cip where "cip = clientIPFrom r (geo_UseECS (cfg_GeoIP (srv_cfg s)))"
  obtain res s1 where l: "lookup lib s db now q cip = (res, s1)"
    by (cases "lookup lib s db now q cip")
  have u: "unanswered res"
    using un l unfolding q_def cip_def by simp
  have "serveDNS lib s db now r =
          serve_unanswered lib s1 now (req_Msg r) ((SetReply (req_Msg r))\<lparr>m_Authoritative := True\<rparr>)
            q (cache_key lib q cip)"
  proof (cases res)
    case (Inl err)
    then show ?thesis
      unfolding serveDNS_def Let_def using q miss l
      by (simp add: q_def cip_def)
  next
    case (Inr p)
    obtain answers ttl where p: "p = (answers, ttl)" by (cases p)
    have "answers = []" using u Inr p by (simp add: unanswered_def)
    then show ?thesis
      unfolding serveDNS_def Let_def using q miss l Inr p
      by (simp add: q_def cip_def)
  qed
  then show ?thesis
    using l unfolding q_def cip_def by simp
qed

lemma serve_unanswered_reply:
  assumes "(if cfg_Forwarder (srv_cfg s) \<noteq> []
            then Exchange lib (cfg_Forwarder (srv_cfg s)) (Fqdn (q_Name q)) (q_Qtype q)
            else None) = Some reply"
  shows "fst (serve_unanswered lib s now request m q key) = reply\<lparr>m_Id := m_Id request\<rparr>"
    and "m_Rcode reply \<noteq> RcodeSuccess \<Longrightarrow>
         srv_cache (snd (serve_unanswered lib s now request m q key))
           = cache_Set (srv_cache s) now key (reply\<lparr>m_Id := m_Id request\<rparr>) (5 * 60)"
    and "m_Rcode reply = RcodeSuccess \<Longrightarrow>
         srv_cache (snd (serve_unanswered lib s now request m q key)) = srv_cache s"
  unfolding serve_unanswered_def Let_def assms by simp_all

lemma serve_unanswered_local:
  assumes "(if cfg_Forwarder (srv_cfg s) \<noteq> []
            then Exchange lib (cfg_Forwarder (srv_cfg s)) (Fqdn (q_Name q)) (q_Qtype q)
            else None) = None"
  shows "fst (serve_unanswered lib s now request m q key) = m\<lparr>m_Rcode := RcodeNameError\<rparr>"
    and "srv_cache (snd (serve_unanswered lib s now request m q key))
           = cache_Set (srv_cache s) now key (m\<lparr>m_Rcode := RcodeNameError\<rparr>) (5 * 60)"
  unfolding serve_unanswered_def Let_def assms by simp_all


text \<open>
  C7. A query that misses the response cache and gets no answer from the local lookup,
  in particular one whose name no stored zone matches, is answered by \<open>serveDNS\<close> as
  follows. If a forwarder is configured and replies with a return code other than zero,
  the reply is returned with the id of the request, and it is stored in the response
  cache under the cache key of the query for \<open>5 * 60\<close> seconds. If the forwarder replies
  with return code zero, the reply is returned and the response cache is left as it was.
  If there is no forwarder or it does not reply, the local NXDOMAIN message is returned
  and stored under the cache key for \<open>5 * 60\<close> seconds. An entry stored so in a cache of
  a size other than zero is found under the key before \<open>now + 300\<close> seconds and not
  from then on.
\<close>

theorem C7_serveDNS_caches_negative_answers:
  fixes lib :: "('ip, 'rr) DnsLib"
  defines "q \<equiv> \<lambda>q0. q0\<lparr>q_Name := ToLower (q_Name q0)\<rparr>"
  defines "cip \<equiv> \<lambda>s r. clientIPFrom r (geo_UseECS (cfg_GeoIP (srv_cfg s)))"
  defines "forwarded \<equiv> \<lambda>s q0.
             if cfg_Forwarder (srv_cfg s) \<noteq> []
             then Exchange lib (cfg_Forwarder (srv_cfg s)) (Fqdn (q_Name (q q0))) (q_Qtype (q q0))
             else None"
  assumes question: "m_Question (req_Msg r) = q0 # rest"
    and miss: "cache_Get (srv_cache s) now (cache_key lib (q q0) (cip s r)) = None"
    and no_answer:
      "select_zone (fst (lookup_zones s db now)) (ToLower (Fqdn (q_Name (q q0)))) = None
       \<or> unanswered (fst (lookup lib s db now (q q0) (cip s r)))"
  shows
    "(\<forall>reply. forwarded s q0 = Some reply \<and> m_Rcode reply \<noteq> RcodeSuccess \<longrightarrow>
        fst (serveDNS lib s db now r) = reply\<lparr>m_Id := m_Id (req_Msg r)\<rparr>
        \<and> srv_cache (snd (serveDNS lib s db now r))
            = cache_Set (srv_cache s) now (cache_key lib (q q0) (cip s r))
                (reply\<lparr>m_Id := m_Id (req_Msg r)\<rparr>) (5 * 60))
     \<and> (\<forall>reply. forwarded s q0 = Some reply \<and> m_Rcode reply = RcodeSuccess \<longrightarrow>
        fst (serveDNS lib s db now r) = reply\<lparr>m_Id := m_Id (req_Msg r)\<rparr>
        \<and> srv_cache (snd (serveDNS lib s db now r)) = srv_cache s)
     \<and> (forwarded s q0 = None \<longrightarrow>
        fst (serveDNS lib s db now r)
          = (SetReply (req_Msg r))\<lparr>m_Authoritative := True, m_Rcode := RcodeNameError\<rparr>
        \<and> srv_cache (snd (serveDNS lib s db now r))
            = cache_Set (srv_cache s) now (cache_key lib (q q0) (cip s r))
                (fst (serveDNS lib s db now r)) (5 * 60))
     \<and> (c_size (srv_cache s) \<noteq> 0 \<longrightarrow>
        (\<forall>msg t. cache_Get (cache_Set (srv_cache s) now (cache_key lib (q q0) (cip s r)) msg (5 * 60))
                    t (cache_key lib (q q0) (cip s r))
                  = (if t < now + 300 then Some msg else None)))"
proof -
  let ?q = "q0\<lparr>q_Name := ToLower (q_Name q0)\<rparr>"
  let ?cip = "clientIPFrom r (geo_UseECS (cfg_GeoIP (srv_cfg s)))"
  let ?key = "cache_key lib ?q ?cip"
  let ?s1 = "snd (lookup lib s db now ?q ?cip)"
  let ?m = "(SetReply (req_Msg r))\<lparr>m_Authoritative := True\<rparr>"
  have un: "unanswered (fst (lookup lib s db now ?q ?cip))"
    using no_answer unfolding q_def cip_def by (rule unanswered_NoZone)
  have miss': "cache_Get (srv_cache s) now ?key = None"
    using miss unfolding q_def cip_def .
  have out: "serveDNS lib s db now r = serve_unanswered lib ?s1 now (req_Msg r) ?m ?q ?key"
    using question miss' un by (rule serveDNS_unanswered)
  have cfg: "srv_cfg ?s1 = srv_cfg s" and cache: "srv_cache ?s1 = srv_cache s"
    by (rule lookup_cfg_cache)+
  have fwd: "forwarded s q0 =
               (if cfg_Forwarder (srv_cfg ?s1) \<noteq> []
                then Exchange lib (cfg_Forwarder (srv_cfg ?s1)) (Fqdn (q_Name ?q)) (q_Qtype ?q)
                else None)"
    unfolding forwarded_def q_def cfg ..
  have a: "\<forall>reply. forwarded s q0 = Some reply \<and> m_Rcode reply \<noteq> RcodeSuccess \<longrightarrow>
        fst (serveDNS lib s db now r) = reply\<lparr>m_Id := m_Id (req_Msg r)\<rparr>
        \<and> srv_cache (snd (serveDNS lib s db now r))
            = cache_Set (srv_cache s) now ?key (reply\<lparr>m_Id := m_Id (req_Msg r)\<rparr>) (5 * 60)"
    unfolding out fwd
    using serve_unanswered_reply(1,2) [of ?s1 lib ?q _ now "req_Msg r" ?m ?key]
    by (simp only: cache) blast
  have b: "\<forall>reply. forwarded s q0 = Some reply \<and> m_Rcode reply = RcodeSuccess \<longrightarrow>
        fst (serveDNS lib s db now r) = reply\<lparr>m_Id := m_Id (req_Msg r)\<rparr>
        \<and> srv_cache (snd (serveDNS lib s db now r)) = srv_cache s"
    unfolding out fwd
    using serve_unanswered_reply(1,3) [of ?s1 lib ?q _ now "req_Msg r" ?m ?key]
    by (simp only: cache) blast
  have c: "forwarded s q0 = None \<longrightarrow>
        fst (serveDNS lib s db now r)
          = (SetReply (req_Msg r))\<lparr>m_Authoritative := True, m_Rcode := RcodeNameError\<rparr>
        \<and> srv_cache (snd (serveDNS lib s db now r))
            = cache_Set (srv_cache s) now ?key (fst (serveDNS lib s db now r)) (5 * 60)"
    unfolding out fwd
    using serve_unanswered_local [of ?s1 lib ?q now "req_Msg r" ?m ?key]
    by (simp only: cache) simp
  have d: "c_size (srv_cache s) \<noteq> 0 \<longrightarrow>
        (\<forall>msg t. cache_Get (cache_Set (srv_cache s) now ?key msg (5 * 60)) t ?key
                  = (if t < now + 300 then Some msg else None))"
    using cache_Get_Set [of "srv_cache s" now ?key _ "5 * 60"] by simp
  from a b c d show ?thesis
    unfolding q_def cip_def by (intro conjI)
qed

theorem C7_serveDNS_caches_negative_answers_witness:
  "m_Question (req_Msg nx_request) = nx_question # []
   \<and> cache_Get (srv_cache forwarding_server) 1000
        (cache_key (forwarding_lib 3) (nx_question\<lparr>q_Name := ToLower (q_Name nx_question)\<rparr>)
           (clientIPFrom nx_request (geo_UseECS (cfg_GeoIP (srv_cfg forwarding_server))))) = None
   \<and> select_zone (fst (lookup_zones forwarding_server example_db 1000))
        (ToLower (Fqdn (q_Name (nx_question\<lparr>q_Name := ToLower (q_Name nx_question)\<rparr>)))) = None
   \<and> fst (serveDNS (forwarding_lib 3) forwarding_server example_db 1000 nx_request)
       = (forwarder_reply 3)\<lparr>m_Id := m_Id (req_Msg nx_request)\<rparr>
   \<and> srv_cache (snd (serveDNS (forwarding_lib 3) forwarding_server example_db 1000 nx_request))
       = cache_Set (srv_cache forwarding_server) 1000
           (cache_key (forwarding_lib 3) (nx_question\<lparr>q_Name := ToLower (q_Name nx_question)\<rparr>)
              (clientIPFrom nx_request (geo_UseECS (cfg_GeoIP (srv_cfg forwarding_server)))))
           ((forwarder_reply 3)\<lparr>m_Id := m_Id (req_Msg nx_request)\<rparr>) (5 * 60)
   \<and> cache_key (forwarding_lib 3) (nx_question\<lparr>q_Name := ToLower (q_Name nx_question)\<rparr>)
        (clientIPFrom nx_request (geo_UseECS (cfg_GeoIP (srv_cfg forwarding_server))))
       = ''nx.unknown.test.|1|''
   \<and> cache_Get
        (srv_cache (snd (serveDNS (forwarding_lib 3) forwarding_server example_db 1000 nx_request)))
        1299 ''nx.unknown.test.|1|''
       = Some ((forwarder_reply 3)\<lparr>m_Id := 7\<rparr>)
   \<and> cache_Get
        (srv_cache (snd (serveDNS (forwarding_lib 3) forwarding_server example_db 1000 nx_request)))
        1300 ''nx.unknown.test.|1|''
       = None"
proof -
  have p1: "m_Question (req_Msg nx_request) = nx_question # []"
    by code_simp
  have p2: "cache_Get (srv_cache forwarding_server) 1000
        (cache_key (forwarding_lib 3) (nx_question\<lparr>q_Name := ToLower (q_Name nx_question)\<rparr>)
           (clientIPFrom nx_request (geo_UseECS (cfg_GeoIP (srv_cfg forwarding_server))))) = None"
    by code_simp
  have p3: "select_zone (fst (lookup_zones forwarding_server example_db 1000))
        (ToLower (Fqdn (q_Name (nx_question\<lparr>q_Name := ToLower (q_Name nx_question)\<rparr>)))) = None"
    by code_simp
  have f: "(if cfg_Forwarder (srv_cfg forwarding_server) \<noteq> []
            then Exchange (forwarding_lib 3) (cfg_Forwarder (srv_cfg forwarding_server))
                   (Fqdn (q_Name (nx_question\<lparr>q_Name := ToLower (q_Name nx_question)\<rparr>)))
                   (q_Qtype (nx_question\<lparr>q_Name := ToLower (q_Name nx_question)\<rparr>))
            else None) = Some (forwarder_reply 3)
           \<and> m_Rcode (forwarder_reply 3) \<noteq> RcodeSuccess"
    by code_simp
  note all = C7_serveDNS_caches_negative_answers
    [where lib = "forwarding_lib 3" and db = example_db, OF p1 p2 disjI1 [OF p3]]
  note stored = all [THEN conjunct1, rule_format, OF f]
  have k: "cache_key (forwarding_lib 3) (nx_question\<lparr>q_Name := ToLower (q_Name nx_question)\<rparr>)
        (clientIPFrom nx_request (geo_UseECS (cfg_GeoIP (srv_cfg forwarding_server))))
       = ''nx.unknown.test.|1|''"
    by code_simp
  have g1: "cache_Get
        (srv_cache (snd (serveDNS (forwarding_lib 3) forwarding_server example_db 1000 nx_request)))
        1299 ''nx.unknown.test.|1|''
       = Some ((forwarder_reply 3)\<lparr>m_Id := 7\<rparr>)"
    by code_simp
  have g2: "cache_Get
        (srv_cache (snd (serveDNS (forwarding_lib 3) forwarding_server example_db 1000 nx_request)))
        1300 ''nx.unknown.test.|1|''
       = None"
    by code_simp
  from p1 p2 p3 stored [THEN conjunct1] stored [THEN conjunct2] k g1 g2
  show ?thesis by (intro conjI)
qed


section \<open>Zone matching in the lookup\<close>

text \<open>
  C10. \<open>lookup\<close> picks the zone by \<open>strings.HasSuffix\<close> on the text of the name, with no
  check that the match starts at a label boundary. The name \<open>notexample.com.\<close> is not the
  zone \<open>example.com.\<close> and does not end with \<open>.example.com.\<close>, yet the zone is selected for
  it: the lookup goes on inside the zone and fails with "record not found" where a name
  outside all zones fails with "no zone", and it answers from an RRSet of that name when
  the zone holds one.
\<close>

theorem C10_lookup_matches_zone_by_text_suffix:
  "''notexample.com.'' \<noteq> Fqdn (ToLower ''example.com.'')
   \<and> \<not> HasSuffix ''notexample.com.'' (''.'' @ Fqdn (ToLower ''example.com.''))
   \<and> HasSuffix ''notexample.com.'' (Fqdn (ToLower ''example.com.''))
   \<and> select_zone (fst (lookup_zones plain_server example_db 1000)) ''notexample.com.''
       = Some \<lparr>z_ID = 1, z_Name = ''example.com.'', z_RRSets = []\<rparr>
   \<and> fst (lookup test_lib plain_server example_db 1000
              \<lparr>q_Name = ''notexample.com.'', q_Qtype = 1\<rparr> None)
       = Inl RecordNotFound
   \<and> fst (lookup test_lib plain_server example_db 1000
              \<lparr>q_Name = ''example.org.'', q_Qtype = 1\<rparr> None)
       = Inl NoZone
   \<and> fst (lookup test_lib plain_server example_db_synced 1000
              \<lparr>q_Name = ''notexample.com.'', q_Qtype = 1\<rparr> None)
       = Inr ([''notexample.com. 300 A 192.0.2.66''], 300)"
proof -
  have a: "''notexample.com.'' \<noteq> Fqdn (ToLower ''example.com.'')" by code_simp
  have b: "\<not> HasSuffix ''notexample.com.'' (''.'' @ Fqdn (ToLower ''example.com.''))" by code_simp
  have c: "HasSuffix ''notexample.com.'' (Fqdn (ToLower ''example.com.''))" by code_simp
  have d: "select_zone (fst (lookup_zones plain_server example_db 1000)) ''notexample.com.''
       = Some \<lparr>z_ID = 1, z_Name = ''example.com.'', z_RRSets = []\<rparr>" by code_simp
  have e: "fst (lookup test_lib plain_server example_db 1000
              \<lparr>q_Name = ''notexample.com.'', q_Qtype = 1\<rparr> None)
       = Inl RecordNotFound" by code_simp
  have f: "fst (lookup test_lib plain_server example_db 1000
              \<lparr>q_Name = ''example.org.'', q_Qtype = 1\<rparr> None)
       = Inl NoZone" by code_simp
  have g: "fst (lookup test_lib plain_server example_db_synced 1000
              \<lparr>q_Name = ''notexample.com.'', q_Qtype = 1\<rparr> None)
       = Inr ([''notexample.com. 300 A 192.0.2.66''], 300)" by code_simp
  from a b c d e f g show ?thesis by (intro conjI)
qed


section \<open>The configuration and the size of the response cache\<close>

lemma defaults_keep_CacheSize:
  "perf_CacheSize (cfg_Performance (default_RESTListen c)) = perf_CacheSize (cfg_Performance c)"
  "perf_CacheSize (cfg_Performance (default_Listen c)) = perf_CacheSize (cfg_Performance c)"
  "perf_CacheSize (cfg_Performance (default_DNSTimeoutSec c)) = perf_CacheSize (cfg_Performance c)"
  "perf_CacheSize (cfg_Performance (default_ForwarderTimeoutSec c))
     = perf_CacheSize (cfg_Performance c)"
  "perf_CacheSize (cfg_Performance (default_SyncIntervalSec c)) = perf_CacheSize (cfg_Performance c)"
  "perf_CacheSize (cfg_Performance (default_TLSReloadSec c)) = perf_CacheSize (cfg_Performance c)"
  "perf_CacheSize (cfg_Performance (default_AutoOnMissing c)) = perf_CacheSize (cfg_Performance c)"
  "perf_CacheSize (cfg_Performance (disable_admin_on_slave c)) = perf_CacheSize (cfg_Performance c)"
  by (simp_all add: default_RESTListen_def default_Listen_def default_DNSTimeoutSec_def
        default_ForwarderTimeoutSec_def default_SyncIntervalSec_def default_TLSReloadSec_def
        default_AutoOnMissing_def disable_admin_on_slave_def)

lemma default_CacheSize_value:
  "perf_CacheSize (cfg_Performance (default_CacheSize c))
     = (if perf_CacheSize (cfg_Performance c) = 0 then 1024
        else perf_CacheSize (cfg_Performance c))"
  by (simp add: default_CacheSize_def)

lemma apply_defaults_CacheSize:
  "perf_CacheSize (cfg_Performance (apply_defaults c))
     = (if perf_CacheSize (cfg_Performance c) = 0 then 1024
        else perf_CacheSize (cfg_Performance c))"
  unfolding apply_defaults_def
  by (simp only: defaults_keep_CacheSize default_CacheSize_value)

lemma if_Some_NoneE:
  assumes "(if a then Some x else r) = None"
  obtains "\<not> a" and "r = None"
  using assms by (cases a) simp_all

lemma Validate_CacheSize:
  assumes "Validate env c = None"
  shows "0 \<le> perf_CacheSize (cfg_Performance c)"
  using assms unfolding Validate_def
  by (elim if_Some_NoneE) (simp only: not_less)

lemma Load_Inr:
  assumes "Load env path = Inr cfg"
  shows "\<exists>b cfg0. ReadFile env path = Some b \<and> Unmarshal env b = Some cfg0
           \<and> cfg = apply_defaults cfg0 \<and> Validate env cfg = None"
proof (cases "ReadFile env path")
  case None
  with assms show ?thesis by (simp add: Load_def)
next
  case (Some b)
  note b = this
  show ?thesis
  proof (cases "Unmarshal env b")
    case None
    with assms b show ?thesis by (simp add: Load_def)
  next
    case (Some cfg0)
    note c0 = this
    show ?thesis
    proof (cases "Validate env (apply_defaults cfg0)")
      case None
      with assms b c0 have "cfg = apply_defaults cfg0"
        by (simp add: Load_def Let_def)
      with None b c0 show ?thesis by simp
    next
      case (Some err)
      with assms b c0 show ?thesis by (simp add: Load_def Let_def)
    qed
  qed
qed

text \<open>
  C6, as it holds. \<open>Load\<close> replaces a \<open>performance.cache_size\<close> of zero by 1024 (and
  \<open>Validate\<close> refuses a negative one), so every configuration that \<open>Load\<close> returns has
  a cache size above zero: it is 1024 when the file gave zero and the size of the file
  otherwise. \<open>NewServer\<close> makes the response cache of that size, and a response set in
  that cache is found under its key until its time to live is over. Setting
  \<open>cache_size\<close> to zero in the file selects the default size; it does not disable
  caching.
\<close>

theorem C6_cache_size_zero_is_default:
  fixes cfg :: Config and srv :: "'rr DnsServer"
  defines "srv \<equiv> NewServer cfg"
  assumes load: "Load env path = Inr cfg"
  shows "\<exists>b cfg0. ReadFile env path = Some b \<and> Unmarshal env b = Some cfg0
           \<and> perf_CacheSize (cfg_Performance cfg)
               = (if perf_CacheSize (cfg_Performance cfg0) = 0 then 1024
                  else perf_CacheSize (cfg_Performance cfg0))
           \<and> 0 < perf_CacheSize (cfg_Performance cfg)
           \<and> c_size (srv_cache srv) = perf_CacheSize (cfg_Performance cfg)
           \<and> (\<forall>now key msg ttl t.
                 cache_Get (cache_Set (srv_cache srv) now key msg ttl) t key
                   = (if t < now + ttl then Some msg else None))"
proof -
  from Load_Inr [OF load] obtain b cfg0 where
    b: "ReadFile env path = Some b" and c0: "Unmarshal env b = Some cfg0"
    and cfg: "cfg = apply_defaults cfg0" and v: "Validate env cfg = None"
    by blast
  have eq: "perf_CacheSize (cfg_Performance cfg)
               = (if perf_CacheSize (cfg_Performance cfg0) = 0 then 1024
                  else perf_CacheSize (cfg_Performance cfg0))"
    unfolding cfg by (rule apply_defaults_CacheSize)
  have "0 \<le> perf_CacheSize (cfg_Performance cfg)"
    using v by (rule Validate_CacheSize)
  with eq have pos: "0 < perf_CacheSize (cfg_Performance cfg)"
    by (simp split: if_splits)
  have size: "c_size (srv_cache srv) = perf_CacheSize (cfg_Performance cfg)"
    by (simp add: srv_def NewServer_def cache_New_def)
  have "c_size (srv_cache srv) \<noteq> 0"
    using pos size by simp
  then have get: "\<forall>now key msg ttl t.
                 cache_Get (cache_Set (srv_cache srv) now key msg ttl) t key
                   = (if t < now + ttl then Some msg else None)"
    by (simp add: cache_Get_Set)
  from b c0 eq pos size get show ?thesis by blast
qed


theorem C6_cache_size_zero_is_default_witness:
  "Load zero_cache_env ''config.yaml'' = Inr zero_cache_loaded
   \<and> (\<exists>b cfg0. ReadFile zero_cache_env ''config.yaml'' = Some b
         \<and> Unmarshal zero_cache_env b = Some cfg0
         \<and> perf_CacheSize (cfg_Performance zero_cache_loaded)
             = (if perf_CacheSize (cfg_Performance cfg0) = 0 then 1024
                else perf_CacheSize (cfg_Performance cfg0))
         \<and> 0 < perf_CacheSize (cfg_Performance zero_cache_loaded)
         \<and> c_size (srv_cache (NewServer zero_cache_loaded :: string DnsServer))
             = perf_CacheSize (cfg_Performance zero_cache_loaded)
         \<and> (\<forall>now key msg ttl t.
               cache_Get (cache_Set (srv_cache (NewServer zero_cache_loaded :: string DnsServer)) now key msg ttl) t key
                 = (if t < now + ttl then Some msg else None)))"
proof -
  have a: "Load zero_cache_env ''config.yaml'' = Inr zero_cache_loaded"
    by code_simp
  from a C6_cache_size_zero_is_default [OF a] show ?thesis by (rule conjI)
qed

text \<open>
  C6 as stated fails. The file sets \<open>performance.cache_size\<close> to zero; \<open>Load\<close> returns a
  configuration with the size 1024. The server made from it answers a query that finds
  no record with NXDOMAIN and stores the reply: the reply is in the response cache a
  second later, and the same query is then answered from the cache with NXDOMAIN although
  the store now holds the record, which a server with an empty cache returns.
\<close>

theorem C6_zero_cache_size_still_caches:
  "ReadFile zero_cache_env ''config.yaml'' = Some zero_cache_yaml
   \<and> Unmarshal zero_cache_env zero_cache_yaml = Some zero_cache_parsed
   \<and> perf_CacheSize (cfg_Performance zero_cache_parsed) = 0
   \<and> Load zero_cache_env ''config.yaml'' = Inr zero_cache_loaded
   \<and> perf_CacheSize (cfg_Performance zero_cache_loaded) = 1024
   \<and> c_size (srv_cache zero_cache_server) = 1024
   \<and> fst (serveDNS test_lib zero_cache_server example_db 1000 (query ''notexample.com.'' 1))
       = nxdomain_reply ''notexample.com.'' 1
   \<and> cache_Get
        (srv_cache (snd (serveDNS test_lib zero_cache_server example_db 1000
                           (query ''notexample.com.'' 1))))
        1001 ''notexample.com.|1|''
       = Some (nxdomain_reply ''notexample.com.'' 1)
   \<and> fst (serveDNS test_lib zero_cache_server example_db_synced 1001
             (query ''notexample.com.'' 1))
       = synced_reply
   \<and> fst (serveDNS test_lib
             (snd (serveDNS test_lib zero_cache_server example_db 1000
                     (query ''notexample.com.'' 1)))
             example_db_synced 1001 (query ''notexample.com.'' 1))
       = nxdomain_reply ''notexample.com.'' 1"
proof -
  have a: "ReadFile zero_cache_env ''config.yaml'' = Some zero_cache_yaml" by code_simp
  have b: "Unmarshal zero_cache_env zero_cache_yaml = Some zero_cache_parsed" by code_simp
  have c: "perf_CacheSize (cfg_Performance zero_cache_parsed) = 0" by code_simp
  have d: "Load zero_cache_env ''config.yaml'' = Inr zero_cache_loaded" by code_simp
  have e: "perf_CacheSize (cfg_Performance zero_cache_loaded) = 1024" by code_simp
  have f: "c_size (srv_cache zero_cache_server) = 1024" by code_simp
  have g: "fst (serveDNS test_lib zero_cache_server example_db 1000 (query ''notexample.com.'' 1))
       = nxdomain_reply ''notexample.com.'' 1" by code_simp
  have h: "cache_Get
        (srv_cache (snd (serveDNS test_lib zero_cache_server example_db 1000
                           (query ''notexample.com.'' 1))))
        1001 ''notexample.com.|1|''
       = Some (nxdomain_reply ''notexample.com.'' 1)" by code_simp
  have i: "fst (serveDNS test_lib zero_cache_server example_db_synced 1001
             (query ''notexample.com.'' 1))
       = synced_reply" by code_simp
  have j: "fst (serveDNS test_lib
             (snd (serveDNS test_lib zero_cache_server example_db 1000
                     (query ''notexample.com.'' 1)))
             example_db_synced 1001 (query ''notexample.com.'' 1))
       = nxdomain_reply ''notexample.com.'' 1" by code_simp
  from a b c d e f g h i j show ?thesis by (intro conjI)
qed


section \<open>The REST handlers and the zone cache\<close>

lemma createZone_success:
  assumes "createZone s req = (status, s')" and "succeeded status"
  shows "\<exists>db'. s' = invalidate (s\<lparr>rest_db := db'\<rparr>)"
  using assms
  by (auto simp: createZone_def succeeded_def split: option.splits if_splits sum.splits)

lemma deleteZone_success:
  assumes "deleteZone s zp = (status, s')" and "succeeded status"
  shows "\<exists>db'. s' = invalidate (s\<lparr>rest_db := db'\<rparr>)"
  using assms
  by (auto simp: deleteZone_def succeeded_def split: option.splits prod.splits)

lemma createRRSet_success:
  assumes "createRRSet s zp body now = (status, s')" and "succeeded status"
  shows "\<exists>db'. s' = invalidate (s\<lparr>rest_db := db'\<rparr>)"
  using assms
  by (auto simp: createRRSet_def succeeded_def Let_def split: option.splits sum.splits)

lemma updateRRSet_success:
  assumes "updateRRSet s zp rid body now = (status, s')" and "succeeded status"
  shows "\<exists>db'. s' = invalidate (s\<lparr>rest_db := db'\<rparr>)"
  using assms
  by (auto simp: updateRRSet_def succeeded_def Let_def split: option.splits prod.splits)

lemma deleteRRSet_success:
  assumes "deleteRRSet s zp rid now = (status, s')" and "succeeded status"
  shows "\<exists>db'. s' = invalidate (s\<lparr>rest_db := db'\<rparr>)"
  using assms
  by (auto simp: deleteRRSet_def succeeded_def split: option.splits)

lemma importZone_success:
  assumes "importZone lib s zp format mode body now = (status, s')" and "succeeded status"
  shows "\<exists>db'. s' = invalidate (s\<lparr>rest_db := db'\<rparr>)"
  using assms
  by (auto simp: importZone_def succeeded_def Let_def split: option.splits prod.splits if_splits)

lemma syncImport_success:
  assumes "syncImport s body = (status, s')" and "succeeded status"
  shows "\<exists>db'. s' = invalidate (s\<lparr>rest_db := db'\<rparr>)"
  using assms
  by (auto simp: syncImport_def succeeded_def split: option.splits prod.splits)

lemma invalidate_dnsServer:
  "rest_dnsServer s = Some d
   \<Longrightarrow> rest_dnsServer (invalidate (s\<lparr>rest_db := db'\<rparr>)) = Some (InvalidateZoneCache d)"
  by (simp add: invalidate_def)

lemma invalidated_lookup_zones:
  "ZoneCache_Get (srv_zoneCache (InvalidateZoneCache d)) t = None"
  "lookup_zones (InvalidateZoneCache d) db t
     = (zones_by_length db,
        (InvalidateZoneCache d)
          \<lparr>srv_zoneCache :=
             ZoneCache_Set (srv_zoneCache (InvalidateZoneCache d)) t (zones_by_length db)\<rparr>)"
  by (simp_all add: lookup_zones_def InvalidateZoneCache_def ZoneCache_Invalidate_def
      ZoneCache_Get_def Let_def)

text \<open>
  C5. When the REST server has a DNS server and one of its writing handlers
  (\<open>createZone\<close>, \<open>deleteZone\<close>, \<open>createRRSet\<close>, \<open>updateRRSet\<close>, \<open>patchRRSet\<close>,
  \<open>deleteRRSet\<close>, \<open>importZone\<close>, \<open>syncImport\<close>) answers with a status of success (200,
  201 or 204), the DNS server afterwards is the one before with \<open>InvalidateZoneCache\<close>
  called on it. Its zone cache then gives no snapshot at any time, and the next lookup
  takes the list of zones from the store as the handler has left it.
\<close>

theorem C5_mutations_invalidate_zone_cache:
  assumes dns: "rest_dnsServer s = Some d"
    and handler:
      "createZone s name = (status, s')
       \<or> deleteZone s zp = (status, s')
       \<or> createRRSet s zp req now = (status, s')
       \<or> updateRRSet s zp rid req now = (status, s')
       \<or> patchRRSet s zp rid req now = (status, s')
       \<or> deleteRRSet s zp rid now = (status, s')
       \<or> importZone lib s zp format mode body now = (status, s')
       \<or> syncImport s sync = (status, s')"
    and success: "succeeded status"
  shows "\<exists>d'. rest_dnsServer s' = Some d'
           \<and> d' = InvalidateZoneCache d
           \<and> (\<forall>t. ZoneCache_Get (srv_zoneCache d') t = None)
           \<and> (\<forall>t. fst (lookup_zones d' (rest_db s') t) = zones_by_length (rest_db s'))"
proof -
  from handler have "\<exists>db'. s' = invalidate (s\<lparr>rest_db := db'\<rparr>)"
  proof (elim disjE)
    assume "createZone s name = (status, s')"
    then show ?thesis using success by (rule createZone_success)
  next
    assume "deleteZone s zp = (status, s')"
    then show ?thesis using success by (rule deleteZone_success)
  next
    assume "createRRSet s zp req now = (status, s')"
    then show ?thesis using success by (rule createRRSet_success)
  next
    assume "updateRRSet s zp rid req now = (status, s')"
    then show ?thesis using success by (rule updateRRSet_success)
  next
    assume "patchRRSet s zp rid req now = (status, s')"
    then have "updateRRSet s zp rid req now = (status, s')" by (simp add: patchRRSet_def)
    then show ?thesis using success by (rule updateRRSet_success)
  next
    assume "deleteRRSet s zp rid now = (status, s')"
    then show ?thesis using success by (rule deleteRRSet_success)
  next
    assume "importZone lib s zp format mode body now = (status, s')"
    then show ?thesis using success by (rule importZone_success)
  next
    assume "syncImport s sync = (status, s')"
    then show ?thesis using success by (rule syncImport_success)
  qed
  then obtain db' where s': "s' = invalidate (s\<lparr>rest_db := db'\<rparr>)" by blast
  have a: "rest_dnsServer s' = Some (InvalidateZoneCache d)"
    unfolding s' using dns by (rule invalidate_dnsServer)
  have b: "\<forall>t. ZoneCache_Get (srv_zoneCache (InvalidateZoneCache d)) t = None"
    by (simp add: invalidated_lookup_zones(1))
  have c: "\<forall>t. fst (lookup_zones (InvalidateZoneCache d) (rest_db s') t)
             = zones_by_length (rest_db s')"
    by (simp add: invalidated_lookup_zones(2))
  from a b c show ?thesis by blast
qed

theorem C5_mutations_invalidate_zone_cache_witness:
  "rest_dnsServer rest_server = Some warm_dns
   \<and> createZone rest_server (Some ''Example.ORG.'')
       = (201, \<lparr>rest_cfg = minimal_config, rest_db = example_db_two_zones,
                 rest_dnsServer = Some (InvalidateZoneCache warm_dns)\<rparr>)
   \<and> succeeded 201
   \<and> ZoneCache_Get (srv_zoneCache warm_dns) 1001 = Some (zones example_db)
   \<and> fst (lookup_zones warm_dns example_db_two_zones 1001) = zones example_db
   \<and> (\<exists>d'. rest_dnsServer
               \<lparr>rest_cfg = minimal_config, rest_db = example_db_two_zones,
                 rest_dnsServer = Some (InvalidateZoneCache warm_dns)\<rparr> = Some d'
           \<and> d' = InvalidateZoneCache warm_dns
           \<and> (\<forall>t. ZoneCache_Get (srv_zoneCache d') t = None)
           \<and> (\<forall>t. fst (lookup_zones d'
                          (rest_db \<lparr>rest_cfg = minimal_config, rest_db = example_db_two_zones,
                                    rest_dnsServer = Some (InvalidateZoneCache warm_dns)\<rparr>) t)
                    = zones_by_length
                        (rest_db \<lparr>rest_cfg = minimal_config, rest_db = example_db_two_zones,
                                  rest_dnsServer = Some (InvalidateZoneCache warm_dns)\<rparr>)))
   \<and> zones_by_length example_db_two_zones = zones example_db_two_zones"
proof -
  have a: "rest_dnsServer rest_server = Some warm_dns" by code_simp
  have b: "createZone rest_server (Some ''Example.ORG.'')
       = (201, \<lparr>rest_cfg = minimal_config, rest_db = example_db_two_zones,
                 rest_dnsServer = Some (InvalidateZoneCache warm_dns)\<rparr>)"
    by code_simp
  have c: "succeeded 201" by code_simp
  have d: "ZoneCache_Get (srv_zoneCache warm_dns) 1001 = Some (zones example_db)" by code_simp
  have e: "fst (lookup_zones warm_dns example_db_two_zones 1001) = zones example_db"
    by code_simp
  have f: "zones_by_length example_db_two_zones = zones example_db_two_zones" by code_simp
  note g = C5_mutations_invalidate_zone_cache [OF a disjI1 [OF b] c]
  from a b c d e g f show ?thesis by (intro conjI)
qed


section \<open>What the handlers hand to the bump\<close>

lemma createRRSet_201:
  assumes h: "createRRSet s zp (Some req) now = (201, s')"
    and z: "zone_param (rest_db s) zp = Some z"
  shows "\<exists>rrset c db1. rs_Type rrset = ToUpper (rq_Type req)
           \<and> create_rrset rrset (rest_db s) = Inr (c, db1)
           \<and> rest_db s' = bump_auto s z now db1"
proof -
  define ttl where "ttl = (if rq_TTL req = 0 \<and> cfg_DefaultTTL (rest_cfg s) > 0
                           then cfg_DefaultTTL (rest_cfg s) else rq_TTL req)"
  define rrset where "rrset = \<lparr>rs_ID = 0, rs_ZoneID = z_ID z,
      rs_Name = ToLower (fqdn (rq_Name req) (z_Name z)), rs_Type = ToUpper (rq_Type req),
      rs_TTL = ttl,
      rs_Records = expand_apex (ToUpper (rq_Type req)) (z_Name z) (recordsNormalized req)\<rparr>"
  have h': "(case first_rrset (rest_db s) (z_ID z) (ToLower (fqdn (rq_Name req) (z_Name z)))
                    (ToUpper (rq_Type req)) of
               Some existing \<Rightarrow> (409 :: nat, s)
             | None \<Rightarrow>
                 (case create_rrset rrset (rest_db s) of
                    Inl err \<Rightarrow> (400, s)
                  | Inr (created, db') \<Rightarrow>
                      (201, invalidate (s\<lparr>rest_db := bump_auto s z now db'\<rparr>))))
            = (201, s')"
    using h unfolding createRRSet_def z Let_def rrset_def ttl_def
    by (simp split del: if_split cong: if_cong)
  then obtain c db1 where c: "create_rrset rrset (rest_db s) = Inr (c, db1)"
    and s': "s' = invalidate (s\<lparr>rest_db := bump_auto s z now db1\<rparr>)"
    by (auto split: option.splits sum.splits)
  have t: "rs_Type rrset = ToUpper (rq_Type req)" by (simp add: rrset_def)
  have "rest_db s' = bump_auto s z now db1" unfolding s' by (simp add: invalidate_def)
  with t c show ?thesis by blast
qed

lemma first_rrset_by_id_Some:
  assumes "first_rrset_by_id db zid r = Some set0"
  shows "\<exists>row. row \<in> set (rr_sets db) \<and> rs_ZoneID row = zid \<and> rs_ID row = r
           \<and> set0 = preload_records db row"
  using assms unfolding first_rrset_by_id_def
  by (auto dest: find_Some_set)

lemma updateRRSet_200:
  assumes h: "updateRRSet s zp rid (Some req) now = (200, s')"
    and z: "zone_param (rest_db s) zp = Some z"
  shows "\<exists>r row e. rid = Some r \<and> row \<in> set (rr_sets (rest_db s)) \<and> rs_ZoneID row = z_ID z
           \<and> rs_ID row = r \<and> rs_ID e = r \<and> rs_Type e = ToUpper (rq_Type req)
           \<and> rest_db s' = bump_auto s z now (save_rrset e (delete_records_of (rs_ID e) (rest_db s)))"
proof -
  from h obtain r where rid: "rid = Some r"
    unfolding updateRRSet_def z by (cases rid) simp_all
  from h obtain set0 where f: "first_rrset_by_id (rest_db s) (z_ID z) r = Some set0"
    unfolding updateRRSet_def z rid by (cases "first_rrset_by_id (rest_db s) (z_ID z) r") simp_all
  from first_rrset_by_id_Some [OF f] obtain row where
    row: "row \<in> set (rr_sets (rest_db s))" "rs_ZoneID row = z_ID z" "rs_ID row = r"
    and set0: "set0 = preload_records (rest_db s) row" by blast
  have id0: "rs_ID set0 = r" unfolding set0 using row(3) by (simp add: preload_records_def)
  define ttl where "ttl = (if rq_TTL req = 0 \<and> cfg_DefaultTTL (rest_cfg s) > 0
                           then cfg_DefaultTTL (rest_cfg s) else rq_TTL req)"
  define set1 where "set1 = set0\<lparr>rs_Name := ToLower (fqdn (rq_Name req) (z_Name z)),
                                 rs_Type := ToUpper (rq_Type req), rs_TTL := ttl\<rparr>"
  define e where "e = set1\<lparr>rs_Records := expand_apex (rs_Type set1) (z_Name z)
                                            (recordsNormalized req)\<rparr>"
  have e1: "rs_ID e = r" "rs_Type e = ToUpper (rq_Type req)" "rs_ID set1 = rs_ID e"
    unfolding e_def set1_def using id0 by simp_all
  have h': "(case Transaction (\<lambda>tx. update_rrset e (delete_records_of (rs_ID set1) tx)) (rest_db s) of
               (Some err, db') \<Rightarrow> (500 :: nat, s)
             | (None, db') \<Rightarrow> (200, invalidate (s\<lparr>rest_db := bump_auto s z now db'\<rparr>)))
            = (200, s')"
    using h unfolding updateRRSet_def z rid Let_def e_def set1_def ttl_def
    by (simp add: f split del: if_split cong: if_cong)
  have "rest_db s' = bump_auto s z now (save_rrset e (delete_records_of (rs_ID e) (rest_db s)))"
    using h' unfolding Transaction_def update_rrset_def e1(3)
    by (auto simp: invalidate_def split: if_splits)
  with rid row e1 show ?thesis by blast
qed

lemma deleteRRSet_204:
  assumes h: "deleteRRSet s zp rid now = (204, s')"
    and z: "zone_param (rest_db s) zp = Some z"
  shows "rest_db s' = BumpSOASerial (delete_rrset (z_ID z) rid (rest_db s)) (z_ID z) now"
  using h unfolding deleteRRSet_def z by (auto simp: invalidate_def)

lemma importZone_json_204:
  assumes h: "importZone lib s zp format mode body now = (204, s')"
    and z: "zone_param (rest_db s) zp = Some z"
    and f: "ToLower format = ''json''"
    and p: "DecodeZone lib body = Some payload"
  shows "\<exists>db1. ImportJSON (rest_db s) z payload (ToLower mode) (cfg_DefaultTTL (rest_cfg s))
                  = (None, db1)
           \<and> rest_db s' = bump_auto s z now db1"
  using h unfolding importZone_def z Let_def f p
  by (auto simp: invalidate_def split: if_splits prod.splits option.splits)
lemma not_names_soa:
  assumes "\<not> names_soa_rrset db zid rid" and "row \<in> set (rr_sets db)"
    and "rs_ZoneID row = zid" and "Some (rs_ID row) = rid"
  shows "rs_Type row \<noteq> ''SOA''"
  using assms unfolding names_soa_rrset_def list_ex_iff by blast

lemma not_soa_in_payload:
  assumes "\<not> soa_in_payload payload" and "rs \<in> set (z_RRSets payload)"
  shows "ToUpper (rs_Type rs) \<noteq> ''SOA''"
  using assms unfolding soa_in_payload_def list_ex_iff by blast

lemma create_db1:
  assumes h: "createRRSet s zp (Some req) now = (201, s')"
    and z: "zone_param (rest_db s) zp = Some z"
    and wf: "wf_store (rest_db s)"
    and t: "ToUpper (rq_Type req) \<noteq> ''SOA''"
  shows "\<exists>db1. wf_store db1 \<and> next_rrset_id (rest_db s) \<le> next_rrset_id db1
           \<and> soa_kept (rest_db s) db1 zid \<and> rest_db s' = bump_auto s z now db1"
proof -
  from createRRSet_201 [OF h z] obtain rrset c db1 where
    ty: "rs_Type rrset = ToUpper (rq_Type req)"
    and c: "create_rrset rrset (rest_db s) = Inr (c, db1)"
    and s': "rest_db s' = bump_auto s z now db1" by blast
  have "wf_store db1" by (rule create_wf [OF wf c])
  moreover have "next_rrset_id (rest_db s) \<le> next_rrset_id db1"
    unfolding create_rr_sets(2) [OF c] by simp
  moreover have "soa_kept (rest_db s) db1 zid"
    by (rule create_kept [OF wf c]) (simp add: ty t)
  ultimately show ?thesis using s' by blast
qed

lemma update_db1:
  assumes h: "updateRRSet s zp rid (Some req) now = (200, s')"
    and z: "zone_param (rest_db s) zp = Some z"
    and wf: "wf_store (rest_db s)"
    and t: "ToUpper (rq_Type req) \<noteq> ''SOA''"
    and n: "\<not> names_soa_rrset (rest_db s) (z_ID z) rid"
  shows "\<exists>db1. wf_store db1 \<and> next_rrset_id (rest_db s) \<le> next_rrset_id db1
           \<and> soa_kept (rest_db s) db1 zid \<and> rest_db s' = bump_auto s z now db1"
proof -
  from updateRRSet_200 [OF h z] obtain r row e where
    rid: "rid = Some r" and row: "row \<in> set (rr_sets (rest_db s))" "rs_ZoneID row = z_ID z"
    "rs_ID row = r" and e: "rs_ID e = r" "rs_Type e = ToUpper (rq_Type req)"
    and s': "rest_db s' = bump_auto s z now (save_rrset e (delete_records_of (rs_ID e) (rest_db s)))"
    by blast
  let ?db1 = "save_rrset e (delete_records_of (rs_ID e) (rest_db s))"
  have t0: "rs_Type row \<noteq> ''SOA''"
    using not_names_soa [OF n row(1,2)] row(3) rid by simp
  have i: "rs_ID e = rs_ID row" using e(1) row(3) by simp
  have "wf_store ?db1" by (rule save_wf_id [OF wf row(1) i])
  moreover have "next_rrset_id (rest_db s) \<le> next_rrset_id ?db1"
    unfolding save_next_rrset_id by (simp add: delete_records_of_def)
  moreover have "soa_kept (rest_db s) ?db1 zid"
    by (rule save_kept [OF wf row(1) i t0]) (simp add: e(2) t)
  ultimately show ?thesis using s' by blast
qed

lemma import_upsert_db1:
  assumes h: "importZone lib s zp format mode body now = (204, s')"
    and z: "zone_param (rest_db s) zp = Some z"
    and wf: "wf_store (rest_db s)"
    and f: "ToLower format = ''json''" and m: "ToLower mode = ''upsert''"
    and p: "DecodeZone lib body = Some payload" and n: "\<not> soa_in_payload payload"
  shows "\<exists>db1. wf_store db1 \<and> next_rrset_id (rest_db s) \<le> next_rrset_id db1
           \<and> soa_kept (rest_db s) db1 zid \<and> rest_db s' = bump_auto s z now db1"
proof -
  from importZone_json_204 [OF h z f p] obtain db1 where
    i: "ImportJSON (rest_db s) z payload (ToLower mode) (cfg_DefaultTTL (rest_cfg s)) = (None, db1)"
    and s': "rest_db s' = bump_auto s z now db1" by blast
  have loop: "import_loop z (cfg_DefaultTTL (rest_cfg s)) (z_RRSets payload) (rest_db s) = Inr db1"
    using ImportJSON_None [OF i] unfolding m by simp
  have "soa_kept (rest_db s) db1 zid \<and> next_rrset_id (rest_db s) \<le> next_rrset_id db1
        \<and> wf_store db1"
    by (rule import_loop_kept [OF wf loop]) (rule not_soa_in_payload [OF n])
  then show ?thesis using s' by blast
qed

lemma import_replace_db1:
  assumes h: "importZone lib s zp format mode body now = (204, s')"
    and z: "zone_param (rest_db s) zp = Some z"
    and wf: "wf_store (rest_db s)"
    and f: "ToLower format = ''json''" and m: "ToLower mode = ''replace''"
    and p: "DecodeZone lib body = Some payload" and n: "\<not> soa_in_payload payload"
  shows "\<exists>db1. wf_store db1 \<and> next_rrset_id (rest_db s) \<le> next_rrset_id db1
           \<and> soa_rows db1 (z_ID z) = [] \<and> rest_db s' = bump_auto s z now db1"
proof -
  from importZone_json_204 [OF h z f p] obtain db1 where
    i: "ImportJSON (rest_db s) z payload (ToLower mode) (cfg_DefaultTTL (rest_cfg s)) = (None, db1)"
    and s': "rest_db s' = bump_auto s z now db1" by blast
  let ?tx = "delete_zone_rrsets (z_ID z) (rest_db s)"
  have loop: "import_loop z (cfg_DefaultTTL (rest_cfg s)) (z_RRSets payload) ?tx = Inr db1"
    using ImportJSON_None [OF i] unfolding m by simp
  have wftx: "wf_store ?tx" using wf by (rule delete_zone_wf)
  have k: "soa_kept ?tx db1 (z_ID z) \<and> next_rrset_id ?tx \<le> next_rrset_id db1 \<and> wf_store db1"
    by (rule import_loop_kept [OF wftx loop]) (rule not_soa_in_payload [OF n])
  have "soa_rows ?tx (z_ID z) = []"
    unfolding soa_rows_def delete_zone_rr_sets by (simp add: filter_empty_conv)
  then have "soa_rows db1 (z_ID z) = []" using k by (simp add: soa_kept_def)
  then show ?thesis using k s' by (auto simp: delete_zone_next)
qed

lemma BumpSOASerial_rr_sets: "rr_sets (BumpSOASerial db zid now) = rr_sets db"
  by (simp add: BumpSOASerial_def Let_def split: option.splits list.splits)

lemma soa_serial_fields:
  assumes "soa_fields db zid = Some parts" and "7 \<le> length parts"
  shows "soa_serial db zid = ParseInt (parts ! 2)"
  using assms by (simp add: soa_serial_def)

lemma auto_bumped:
  assumes wf1: "wf_store db1" and pos1: "0 < next_rrset_id db1"
    and k: "soa_kept db db1 (z_ID z)"
  shows "\<forall>parts. soa_fields db (z_ID z) = Some parts \<and> 7 \<le> length parts
            \<and> list_all one_field (soa_overrides z primary hostmaster parts) \<longrightarrow>
          soa_rows (BumpSOASerialAuto db1 z auto primary hostmaster now) (z_ID z)
            = soa_rows db (z_ID z)
          \<and> soa_fields (BumpSOASerialAuto db1 z auto primary hostmaster now) (z_ID z)
              = Some ((soa_overrides z primary hostmaster parts)[2 := bumped_serial (parts ! 2) now])
          \<and> (\<forall>n. soa_serial db (z_ID z) = Some n \<and> n < 2 ^ 63 - 1 \<longrightarrow>
                soa_serial (BumpSOASerialAuto db1 z auto primary hostmaster now) (z_ID z)
                  = Some (n + 1))
          \<and> (soa_serial db (z_ID z) = None \<and> is_int64 now \<longrightarrow>
                soa_serial (BumpSOASerialAuto db1 z auto primary hostmaster now) (z_ID z)
                  = Some now)"
proof (intro allI impI)
  fix parts
  assume a: "soa_fields db (z_ID z) = Some parts \<and> 7 \<le> length parts
            \<and> list_all one_field (soa_overrides z primary hostmaster parts)"
  let ?db' = "BumpSOASerialAuto db1 z auto primary hostmaster now"
  from a have f: "soa_fields db (z_ID z) = Some parts" and l: "7 \<le> length parts"
    and o: "list_all one_field (soa_overrides z primary hostmaster parts)" by simp_all
  have rows: "soa_rows ?db' (z_ID z) = soa_rows db (z_ID z)"
    by (rule bump_existing(1) [OF f l o k])
  have f': "soa_fields ?db' (z_ID z)
      = Some ((soa_overrides z primary hostmaster parts)[2 := bumped_serial (parts ! 2) now])"
    by (rule bump_existing(2) [OF f l o k])
  have len: "length (soa_overrides z primary hostmaster parts) = length parts"
    by (rule soa_overrides_props(1) [OF l])
  note ser = serial_after [OF f l f' len]
  have s0: "soa_serial db (z_ID z) = ParseInt (parts ! 2)"
    by (rule soa_serial_fields [OF f l])
  have s1: "\<forall>n. soa_serial db (z_ID z) = Some n \<and> n < 2 ^ 63 - 1 \<longrightarrow>
                soa_serial ?db' (z_ID z) = Some (n + 1)"
    unfolding s0 using ser(1) by blast
  have s2: "soa_serial db (z_ID z) = None \<and> is_int64 now \<longrightarrow> soa_serial ?db' (z_ID z) = Some now"
    unfolding s0 is_int64_def using ser(2) by blast
  from rows f' s1 s2 show "soa_rows ?db' (z_ID z) = soa_rows db (z_ID z)
          \<and> soa_fields ?db' (z_ID z)
              = Some ((soa_overrides z primary hostmaster parts)[2 := bumped_serial (parts ! 2) now])
          \<and> (\<forall>n. soa_serial db (z_ID z) = Some n \<and> n < 2 ^ 63 - 1 \<longrightarrow>
                soa_serial ?db' (z_ID z) = Some (n + 1))
          \<and> (soa_serial db (z_ID z) = None \<and> is_int64 now \<longrightarrow>
                soa_serial ?db' (z_ID z) = Some now)"
    by (intro conjI)
qed

lemma auto_created:
  assumes wf1: "wf_store db1" and pos1: "0 < next_rrset_id db1"
    and none: "soa_rows db1 (z_ID z) = []"
    and o: "list_all one_field (default_soa_fields z primary hostmaster now)"
  shows "(\<exists>row. soa_rows (BumpSOASerialAuto db1 z True primary hostmaster now) (z_ID z) = [row]
            \<and> rs_Name row = TrimSuffix (ToLower (z_Name z)) ''.'' @ ''.''
            \<and> rs_TTL row = 3600)
         \<and> soa_fields (BumpSOASerialAuto db1 z True primary hostmaster now) (z_ID z)
             = Some (default_soa_fields z primary hostmaster now)
         \<and> (is_int64 now \<longrightarrow>
              soa_serial (BumpSOASerialAuto db1 z True primary hostmaster now) (z_ID z) = Some now)"
proof -
  let ?db' = "BumpSOASerialAuto db1 z True primary hostmaster now"
  note m = bump_missing [OF wf1 pos1 none o]
  have "is_int64 now \<longrightarrow> soa_serial ?db' (z_ID z) = Some now"
    unfolding soa_serial_def m(2) is_int64_def
    by (simp add: default_soa_fields_def Let_def ParseInt_FormatInt)
  with m show ?thesis by (intro conjI)
qed

lemma plain_bumped:
  assumes k: "soa_kept db db1 zid"
  shows "soa_rows (BumpSOASerial db1 zid now) zid = soa_rows db zid
         \<and> (\<forall>parts. soa_fields db zid = Some parts \<and> 7 \<le> length parts \<longrightarrow>
              soa_fields (BumpSOASerial db1 zid now) zid
                = Some (parts[2 := bumped_serial (parts ! 2) now])
              \<and> (\<forall>n. soa_serial db zid = Some n \<and> n < 2 ^ 63 - 1 \<longrightarrow>
                    soa_serial (BumpSOASerial db1 zid now) zid = Some (n + 1))
              \<and> (soa_serial db zid = None \<and> is_int64 now \<longrightarrow>
                    soa_serial (BumpSOASerial db1 zid now) zid = Some now))"
proof (intro conjI allI impI)
  let ?db' = "BumpSOASerial db1 zid now"
  have "soa_rows ?db' zid = soa_rows db1 zid"
    by (rule soa_rows_rr_sets [OF BumpSOASerial_rr_sets])
  then show "soa_rows ?db' zid = soa_rows db zid"
    using k by (simp add: soa_kept_def)
  fix parts
  assume a: "soa_fields db zid = Some parts \<and> 7 \<le> length parts"
  then have f: "soa_fields db zid = Some parts" and l: "7 \<le> length parts" by simp_all
  show f': "soa_fields ?db' zid = Some (parts[2 := bumped_serial (parts ! 2) now])"
    by (rule bump_plain_existing(2) [OF f l k])
  note ser = serial_after [OF f l f' refl]
  have s0: "soa_serial db zid = ParseInt (parts ! 2)"
    by (rule soa_serial_fields [OF f l])
  {
    fix n assume "soa_serial db zid = Some n \<and> n < 2 ^ 63 - 1"
    then show "soa_serial ?db' zid = Some (n + 1)"
      unfolding s0 using ser(1) by blast
  }
  assume "soa_serial db zid = None \<and> is_int64 now"
  then show "soa_serial ?db' zid = Some now"
    unfolding s0 is_int64_def using ser(2) by blast
qed


section \<open>The SOA serial after a mutation\<close>

text \<open>
  C2 (as amended). Let the store have unique primary keys and auto-increment keys that
  start above zero, let the handler find the zone, and let the Unix epoch of the
  moment be within the range of \<open>int64\<close>. The statement is about
  \<^item> \<open>createRRSet\<close>, \<open>updateRRSet\<close> and \<open>patchRRSet\<close> that answer with 201 or 200, for a
    request whose type is not SOA and, for the two updates, an RRSet that is not an SOA
    RRSet of the zone, and \<open>importZone\<close> that answers with 204 for a JSON payload
    without an RRSet of type SOA in mode \<open>upsert\<close>: if the first record of the SOA
    RRSet that the zone has carries at least seven fields, and the names that
    \<open>BumpSOASerialAuto\<close> puts in (the configured primary and hostmaster with the zone
    name substituted, if they are configured) are free of white space, then the SOA
    RRSets of the zone are the same rows afterwards, the third field of that record is
    the old serial plus one if the old serial is an integer below the largest \<open>int64\<close>,
    and the current Unix epoch if the old serial is not an integer. If the zone has no
    SOA RRSet, \<open>auto_on_missing\<close> is on and the names of the default record are free
    of white space, then afterwards the zone has exactly one SOA RRSet, at the apex and
    with TTL 3600, with the default timers and the current Unix epoch as its serial;
  \<^item> \<open>deleteRRSet\<close> that answers with 204 for an RRSet that is not an SOA RRSet of the
    zone: the SOA RRSets of the zone are the same rows afterwards (none is created),
    and a record with at least seven fields gets the serial as above;
  \<^item> \<open>importZone\<close> that answers with 204 for a JSON payload without an RRSet of type
    SOA in mode \<open>replace\<close>, with \<open>auto_on_missing\<close> on: afterwards the zone has exactly
    one SOA RRSet, a new one at the apex with TTL 3600 whose serial is the current Unix
    epoch, whatever the serial was before.
\<close>

theorem C2_mutations_bump_serial:
  fixes s s' :: "'rr RestServer" and z :: Zone
  defines "db \<equiv> rest_db s" and "db' \<equiv> rest_db s'" and "zid \<equiv> z_ID z"
    and "auto \<equiv> soa_AutoOnMissing (cfg_SOA (rest_cfg s))"
    and "primary \<equiv> soa_Primary (cfg_SOA (rest_cfg s))"
    and "hostmaster \<equiv> soa_Hostmaster (cfg_SOA (rest_cfg s))"
  assumes wf: "wf_store db" and pos: "0 < next_rrset_id db"
    and zone: "zone_param db zp = Some z"
  shows
    "(createRRSet s zp (Some req) now = (201, s') \<and> ToUpper (rq_Type req) \<noteq> ''SOA''
      \<or> updateRRSet s zp rid (Some req) now = (200, s') \<and> ToUpper (rq_Type req) \<noteq> ''SOA''
          \<and> \<not> names_soa_rrset db zid rid
      \<or> patchRRSet s zp rid (Some req) now = (200, s') \<and> ToUpper (rq_Type req) \<noteq> ''SOA''
          \<and> \<not> names_soa_rrset db zid rid
      \<or> importZone lib s zp format mode body now = (204, s') \<and> ToLower format = ''json''
          \<and> ToLower mode = ''upsert'' \<and> DecodeZone lib body = Some payload
          \<and> \<not> soa_in_payload payload
      \<longrightarrow>
        (\<forall>parts. soa_fields db zid = Some parts \<and> 7 \<le> length parts
             \<and> list_all one_field (soa_overrides z primary hostmaster parts) \<longrightarrow>
           soa_rows db' zid = soa_rows db zid
           \<and> soa_fields db' zid
               = Some ((soa_overrides z primary hostmaster parts)[2 := bumped_serial (parts ! 2) now])
           \<and> (\<forall>n. soa_serial db zid = Some n \<and> n < 2 ^ 63 - 1 \<longrightarrow>
                 soa_serial db' zid = Some (n + 1))
           \<and> (soa_serial db zid = None \<and> is_int64 now \<longrightarrow> soa_serial db' zid = Some now))
        \<and> (soa_rows db zid = [] \<and> auto
             \<and> list_all one_field (default_soa_fields z primary hostmaster now) \<longrightarrow>
           (\<exists>row. soa_rows db' zid = [row]
              \<and> rs_Name row = TrimSuffix (ToLower (z_Name z)) ''.'' @ ''.''
              \<and> rs_TTL row = 3600)
           \<and> soa_fields db' zid = Some (default_soa_fields z primary hostmaster now)
           \<and> (is_int64 now \<longrightarrow> soa_serial db' zid = Some now)))
     \<and> (deleteRRSet s zp rid now = (204, s') \<and> \<not> names_soa_rrset db zid rid
      \<longrightarrow>
        soa_rows db' zid = soa_rows db zid
        \<and> (\<forall>parts. soa_fields db zid = Some parts \<and> 7 \<le> length parts \<longrightarrow>
             soa_fields db' zid = Some (parts[2 := bumped_serial (parts ! 2) now])
             \<and> (\<forall>n. soa_serial db zid = Some n \<and> n < 2 ^ 63 - 1 \<longrightarrow>
                   soa_serial db' zid = Some (n + 1))
             \<and> (soa_serial db zid = None \<and> is_int64 now \<longrightarrow> soa_serial db' zid = Some now)))
     \<and> (importZone lib s zp format mode body now = (204, s') \<and> ToLower format = ''json''
          \<and> ToLower mode = ''replace'' \<and> DecodeZone lib body = Some payload
          \<and> \<not> soa_in_payload payload \<and> auto
          \<and> list_all one_field (default_soa_fields z primary hostmaster now)
      \<longrightarrow>
        (\<exists>row. soa_rows db' zid = [row]
           \<and> rs_Name row = TrimSuffix (ToLower (z_Name z)) ''.'' @ ''.''
           \<and> rs_TTL row = 3600)
        \<and> soa_fields db' zid = Some (default_soa_fields z primary hostmaster now)
        \<and> (is_int64 now \<longrightarrow> soa_serial db' zid = Some now))"
    (is "(?M1 \<longrightarrow> ?E \<and> (?N \<longrightarrow> ?F)) \<and> (?M2 \<longrightarrow> ?G) \<and> (?M3 \<longrightarrow> ?H)")
proof -
  have 1: "?M1 \<longrightarrow> ?E \<and> (?N \<longrightarrow> ?F)"
  proof (rule impI)
    assume m: ?M1
    have "\<exists>db1. wf_store db1 \<and> next_rrset_id db \<le> next_rrset_id db1
             \<and> soa_kept db db1 zid \<and> db' = bump_auto s z now db1"
      using m
    proof (elim disjE conjE)
      assume "createRRSet s zp (Some req) now = (201, s')" "ToUpper (rq_Type req) \<noteq> ''SOA''"
      then show ?thesis
        unfolding db_def db'_def using zone wf create_db1 unfolding db_def by blast
    next
      assume "updateRRSet s zp rid (Some req) now = (200, s')" "ToUpper (rq_Type req) \<noteq> ''SOA''"
        "\<not> names_soa_rrset db zid rid"
      then show ?thesis
        unfolding db_def db'_def zid_def using zone wf update_db1 unfolding db_def by blast
    next
      assume "patchRRSet s zp rid (Some req) now = (200, s')" "ToUpper (rq_Type req) \<noteq> ''SOA''"
        "\<not> names_soa_rrset db zid rid"
      then have "updateRRSet s zp rid (Some req) now = (200, s')"
        "ToUpper (rq_Type req) \<noteq> ''SOA''" "\<not> names_soa_rrset db zid rid"
        by (simp_all add: patchRRSet_def)
      then show ?thesis
        unfolding db_def db'_def zid_def using zone wf update_db1 unfolding db_def by blast
    next
      assume "importZone lib s zp format mode body now = (204, s')" "ToLower format = ''json''"
        "ToLower mode = ''upsert''" "DecodeZone lib body = Some payload"
        "\<not> soa_in_payload payload"
      then show ?thesis
        unfolding db_def db'_def using zone wf import_upsert_db1 unfolding db_def by blast
    qed
    then obtain db1 where wf1: "wf_store db1" and n1: "next_rrset_id db \<le> next_rrset_id db1"
      and k: "soa_kept db db1 (z_ID z)"
      and b: "db' = BumpSOASerialAuto db1 z auto primary hostmaster now"
      unfolding bump_auto_def zid_def auto_def primary_def hostmaster_def by blast
    have pos1: "0 < next_rrset_id db1" using pos n1 by simp
    show "?E \<and> (?N \<longrightarrow> ?F)"
    proof (rule conjI)
      show ?E
        unfolding b zid_def by (rule auto_bumped [OF wf1 pos1 k])
      show "?N \<longrightarrow> ?F"
      proof (rule impI)
        assume c: ?N
        then have none: "soa_rows db1 (z_ID z) = []" using k by (simp add: soa_kept_def zid_def)
        from c have a: "auto = True"
          and o: "list_all one_field (default_soa_fields z primary hostmaster now)"
          by simp_all
        show ?F
          unfolding b a zid_def by (rule auto_created [OF wf1 pos1 none o])
      qed
    qed
  qed
  have 2: "?M2 \<longrightarrow> ?G"
  proof (rule impI)
    assume m: ?M2
    then have h: "deleteRRSet s zp rid now = (204, s')" and n: "\<not> names_soa_rrset db zid rid"
      by simp_all
    have b: "db' = BumpSOASerial (delete_rrset zid rid db) zid now"
      unfolding db'_def db_def zid_def by (rule deleteRRSet_204 [OF h zone [unfolded db_def]])
    have k: "soa_kept db (delete_rrset zid rid db) zid"
      by (rule delete_rrset_kept) (rule not_names_soa [OF n])
    show ?G
      unfolding b by (rule plain_bumped [OF k])
  qed
  have 3: "?M3 \<longrightarrow> ?H"
  proof (rule impI)
    assume m: ?M3
    then have h: "importZone lib s zp format mode body now = (204, s')"
      and f: "ToLower format = ''json''" and r: "ToLower mode = ''replace''"
      and p: "DecodeZone lib body = Some payload" and n: "\<not> soa_in_payload payload"
      and a: "auto = True"
      and o: "list_all one_field (default_soa_fields z primary hostmaster now)"
      by simp_all
    from import_replace_db1 [OF h zone [unfolded db_def] wf [unfolded db_def] f r p n]
    obtain db1 where wf1: "wf_store db1" and n1: "next_rrset_id db \<le> next_rrset_id db1"
      and none: "soa_rows db1 (z_ID z) = []"
      and b: "db' = BumpSOASerialAuto db1 z auto primary hostmaster now"
      unfolding bump_auto_def db_def db'_def auto_def primary_def hostmaster_def by blast
    have pos1: "0 < next_rrset_id db1" using pos n1 by simp
    show ?H
      unfolding b a zid_def by (rule auto_created [OF wf1 pos1 none o])
  qed
  from 1 2 3 show ?thesis by (intro conjI)
qed

theorem C2_mutations_bump_serial_witness:
  "wf_store (rest_db soa_rest) \<and> 0 < next_rrset_id (rest_db soa_rest)
   \<and> zone_param (rest_db soa_rest) (Some 1) = Some soa_zone
   \<and> fst (createRRSet soa_rest (Some 1) (Some mail_req) 1761868800) = 201
   \<and> ToUpper (rq_Type mail_req) \<noteq> ''SOA''
   \<and> soa_fields (rest_db soa_rest) (z_ID soa_zone) = Some soa_db_fields
   \<and> 7 \<le> length soa_db_fields
   \<and> list_all one_field
        (soa_overrides soa_zone (soa_Primary (cfg_SOA (rest_cfg soa_rest)))
           (soa_Hostmaster (cfg_SOA (rest_cfg soa_rest))) soa_db_fields)
   \<and> soa_serial (rest_db soa_rest) (z_ID soa_zone) = Some 2025010101
   \<and> soa_rows (rest_db (snd (createRRSet soa_rest (Some 1) (Some mail_req) 1761868800)))
        (z_ID soa_zone)
       = soa_rows (rest_db soa_rest) (z_ID soa_zone)
   \<and> soa_serial (rest_db (snd (createRRSet soa_rest (Some 1) (Some mail_req) 1761868800)))
        (z_ID soa_zone)
       = Some (2025010101 + 1)"
proof -
  let ?s' = "snd (createRRSet soa_rest (Some 1) (Some mail_req) 1761868800)"
  have wf: "wf_store (rest_db soa_rest)" by code_simp
  have pos: "0 < next_rrset_id (rest_db soa_rest)" by code_simp
  have zn: "zone_param (rest_db soa_rest) (Some 1) = Some soa_zone" by code_simp
  have st: "fst (createRRSet soa_rest (Some 1) (Some mail_req) 1761868800) = 201" by code_simp
  have h: "createRRSet soa_rest (Some 1) (Some mail_req) 1761868800 = (201, ?s')"
    using st by (simp add: prod_eq_iff)
  have t: "ToUpper (rq_Type mail_req) \<noteq> ''SOA''" by code_simp
  have f: "soa_fields (rest_db soa_rest) (z_ID soa_zone) = Some soa_db_fields" by code_simp
  have l: "7 \<le> length soa_db_fields" by code_simp
  have o: "list_all one_field
        (soa_overrides soa_zone (soa_Primary (cfg_SOA (rest_cfg soa_rest)))
           (soa_Hostmaster (cfg_SOA (rest_cfg soa_rest))) soa_db_fields)" by code_simp
  have n: "soa_serial (rest_db soa_rest) (z_ID soa_zone) = Some 2025010101" by code_simp
  have n': "soa_serial (rest_db soa_rest) (z_ID soa_zone) = Some 2025010101
            \<and> (2025010101 :: int) < 2 ^ 63 - 1"
    using n by simp
  note all = C2_mutations_bump_serial [OF wf pos zn, where s' = ?s' and req = mail_req
      and now = 1761868800]
  note bumped = all [THEN conjunct1, THEN mp, OF disjI1 [OF conjI [OF h t]], THEN conjunct1,
      THEN spec, THEN mp, OF conjI [OF f conjI [OF l o]]]
  note rows = bumped [THEN conjunct1]
  note serial = bumped [THEN conjunct2, THEN conjunct2, THEN conjunct1, THEN spec, THEN mp, OF n']
  from wf pos zn st t f l o n rows serial show ?thesis by (intro conjI)
qed

text \<open>
  C2 as stated fails for an import in mode \<open>replace\<close> whose payload has no SOA RRSet:
  \<open>importZone\<close> answers with 204; \<open>ImportJSON\<close> has deleted the SOA RRSet with the rest
  of the zone and \<open>BumpSOASerialAuto\<close> has created a new one, whose serial is the Unix
  epoch of that moment (here 1761868800, 31 October 2025). The serial before the
  import, 2025010101, is greater. Nor is there an SOA RRSet after every mutation:
  \<open>deleteRRSet\<close> calls \<open>BumpSOASerial\<close>, which creates none, so a zone without an SOA
  RRSet stays without one although \<open>auto_on_missing\<close> is on, and \<open>createZone\<close> makes a
  zone without an SOA RRSet.
\<close>

theorem C2_replace_import_lowers_serial:
  "soa_serial (rest_db soa_rest) 1 = Some 2025010101
   \<and> DecodeZone soa_rest_lib ''payload'' = Some soa_payload
   \<and> \<not> soa_in_payload soa_payload
   \<and> soa_AutoOnMissing (cfg_SOA (rest_cfg soa_rest))
   \<and> fst (importZone soa_rest_lib soa_rest (Some 1) ''json'' ''replace'' ''payload'' 1761868800)
       = 204
   \<and> length (soa_rows (rest_db (snd (importZone soa_rest_lib soa_rest (Some 1) ''json''
                                         ''replace'' ''payload'' 1761868800))) 1) = 1
   \<and> soa_serial (rest_db (snd (importZone soa_rest_lib soa_rest (Some 1) ''json''
                                  ''replace'' ''payload'' 1761868800))) 1
       = Some 1761868800
   \<and> \<not> (2025010101 :: int) < 1761868800
   \<and> soa_rows (rest_db nosoa_rest) 1 = []
   \<and> soa_AutoOnMissing (cfg_SOA (rest_cfg nosoa_rest))
   \<and> fst (deleteRRSet nosoa_rest (Some 1) (Some 3) 1761868800) = 204
   \<and> soa_rows (rest_db (snd (deleteRRSet nosoa_rest (Some 1) (Some 3) 1761868800))) 1 = []
   \<and> fst (createZone soa_rest (Some ''Example.ORG'')) = 201
   \<and> zones (rest_db (snd (createZone soa_rest (Some ''Example.ORG''))))
       = [soa_zone, \<lparr>z_ID = 2, z_Name = ''example.org'', z_RRSets = []\<rparr>]
   \<and> soa_rows (rest_db (snd (createZone soa_rest (Some ''Example.ORG'')))) 2 = []"
proof -
  have a: "soa_serial (rest_db soa_rest) 1 = Some 2025010101" by code_simp
  have b: "DecodeZone soa_rest_lib ''payload'' = Some soa_payload" by code_simp
  have c: "\<not> soa_in_payload soa_payload" by code_simp
  have d: "soa_AutoOnMissing (cfg_SOA (rest_cfg soa_rest))" by code_simp
  have e: "fst (importZone soa_rest_lib soa_rest (Some 1) ''json'' ''replace'' ''payload''
                  1761868800) = 204" by code_simp
  have f: "length (soa_rows (rest_db (snd (importZone soa_rest_lib soa_rest (Some 1) ''json''
                                         ''replace'' ''payload'' 1761868800))) 1) = 1"
    by code_simp
  have g: "soa_serial (rest_db (snd (importZone soa_rest_lib soa_rest (Some 1) ''json''
                                  ''replace'' ''payload'' 1761868800))) 1
       = Some 1761868800" by code_simp
  have h: "\<not> (2025010101 :: int) < 1761868800" by simp
  have i: "soa_rows (rest_db nosoa_rest) 1 = []" by code_simp
  have j: "soa_AutoOnMissing (cfg_SOA (rest_cfg nosoa_rest))" by code_simp
  have k: "fst (deleteRRSet nosoa_rest (Some 1) (Some 3) 1761868800) = 204" by code_simp
  have l: "soa_rows (rest_db (snd (deleteRRSet nosoa_rest (Some 1) (Some 3) 1761868800))) 1 = []"
    by code_simp
  have m: "fst (createZone soa_rest (Some ''Example.ORG'')) = 201" by code_simp
  have n: "zones (rest_db (snd (createZone soa_rest (Some ''Example.ORG''))))
       = [soa_zone, \<lparr>z_ID = 2, z_Name = ''example.org'', z_RRSets = []\<rparr>]" by code_simp
  have o: "soa_rows (rest_db (snd (createZone soa_rest (Some ''Example.ORG'')))) 2 = []"
    by code_simp
  from a b c d e f g h i j k l m n o show ?thesis by (intro conjI)
qed


end
